theory Spec2Isabelle
  imports Main "HOL-Library.AList"
begin

section \<open>Data model\<close>

text \<open>
  The extension keeps its data in the host's key-value store (\<open>globalState\<close>, a
  \<open>vscode.Memento\<close>) and reads the clock and the file system. The model makes the three
  explicit: a record \<open>globalState\<close> for the persisted values, a record \<open>env\<close> for what
  the host and Node answer, and every service method as a function from the state to
  the new state (and its result).

  A JavaScript object used as a dictionary (\<open>Record<string, V>\<close>) is an association list
  with distinct keys, in insertion order: \<open>Object.values\<close> enumerates string keys in
  insertion order (the keys here are folder paths and tag names, not array indices), an
  assignment to an existing key keeps its place, an assignment to a new key appends
  (\<open>AList.update\<close>), and \<open>delete\<close> removes the key (\<open>AList.delete\<close>).
  Numbers are the integers the code stores in them (millisecond timestamps, counters,
  priorities), so \<open>number\<close> is \<open>int\<close>. Strings are lists of characters.
\<close>

type_synonym 'v js_record = "(string \<times> 'v) list"

text \<open>\<open>WorkspaceHistoryEntry\<close> (workspace-history-service.ts).\<close>

record WorkspaceHistoryEntry =
  path :: string
  lastOpened :: int
  openCount :: int
  firstOpened :: int

text \<open>\<open>PostponedSuggestion\<close>, \<open>SavedProject\<close>, \<open>Project\<close>, \<open>RecentFolder\<close>, \<open>ProjectTag\<close>
  (types/index.ts). The \<open>uri\<close> fields are \<open>vscode.Uri.file\<close> of the path and carry no
  information of their own; the optional display fields play no role in the services
  modelled here.\<close>

record PostponedSuggestion =
  postponedPath :: string
  postponedAt :: int

record SavedProject =
  savedName :: string
  savedPath :: string
  savedAt :: int

record Project =
  projectName :: string
  projectPath :: string

record RecentFolder =
  folderName :: string
  folderPath :: string
  folderLastOpened :: int
  folderOpenCount :: int

record ProjectTag =
  tagName :: string
  priority :: int

text \<open>\<open>SuggestionConfig\<close> (configuration-service.ts).\<close>

record SuggestionConfig =
  enabled :: bool
  minOpenCount :: int
  timePeriodDays :: int

text \<open>The keys under which the services store their values, and the store itself. The
  field \<open>updates\<close> logs every call of \<open>globalState.update\<close>, so that "no store update"
  is a statement about the state.\<close>

datatype store_key =
  WORKSPACE_HISTORY_KEY | IGNORED_SUGGESTIONS_KEY | POSTPONED_SUGGESTIONS_KEY
  | SAVED_PROJECTS_KEY | EXCLUDED_PATHS_KEY | METADATA_KEY

record ProjectMetadata =
  tagIds :: "string list"

record globalState =
  workspaceHistory :: "WorkspaceHistoryEntry js_record"
  ignoredSuggestionPaths :: "string list"
  postponedSuggestions :: "PostponedSuggestion list"
  savedProjects :: "SavedProject list"
  excludedPaths :: "string list"
  projectMetadata :: "ProjectMetadata js_record"
  updates :: "store_key list"

text \<open>What the host answers: \<open>Date.now()\<close>, \<open>fs.existsSync\<close>, \<open>fs.statSync(p).isFile()\<close>
  (\<open>None\<close> when \<open>statSync\<close> throws), \<open>fs.readFileSync(p, 'utf-8')\<close> (\<open>None\<close> when it
  throws), Node's \<open>path.join\<close>, \<open>path.basename\<close> and \<open>path.sep\<close> (one character), and
  the engine's \<open>String.prototype.localeCompare\<close> and \<open>toLowerCase\<close>. One call of a service
  method sees one clock value.\<close>

record env =
  now :: int
  existsSync :: "string \<Rightarrow> bool"
  statIsFile :: "string \<Rightarrow> bool option"
  readFileSync :: "string \<Rightarrow> string option"
  path_join :: "string \<Rightarrow> string \<Rightarrow> string"
  path_basename :: "string \<Rightarrow> string"
  path_sep :: char
  localeCompare :: "string \<Rightarrow> string \<Rightarrow> int"
  toLowerCase :: "string \<Rightarrow> string"

section \<open>String helpers of the JavaScript library\<close>

text \<open>\<open>String.prototype.trim\<close> on ASCII text: white space and line terminators are
  removed from both ends.\<close>

definition isWhiteSpace :: "char \<Rightarrow> bool" where
  "isWhiteSpace c = (c \<in> set [CHR '' '', CHR 0x09, CHR 0x0A, CHR 0x0B, CHR 0x0C, CHR 0x0D])"

definition trim :: "string \<Rightarrow> string" where
  "trim s = rev (dropWhile isWhiteSpace (rev (dropWhile isWhiteSpace s)))"

definition startsWith :: "string \<Rightarrow> string \<Rightarrow> bool" where
  "startsWith s p = (take (length p) s = p)"

definition endsWith :: "string \<Rightarrow> string \<Rightarrow> bool" where
  "endsWith s p = (length p \<le> length s \<and> drop (length s - length p) s = p)"

text \<open>\<open>s.includes(p)\<close>: \<open>p\<close> occurs in \<open>s\<close> at some position.\<close>

fun str_includes :: "string \<Rightarrow> string \<Rightarrow> bool" where
  "str_includes [] p = (p = [])"
| "str_includes (c # s) p = (startsWith (c # s) p \<or> str_includes s p)"

text \<open>\<open>s.replace(p, r)\<close> with a string pattern: the first occurrence of \<open>p\<close> is replaced,
  and \<open>s\<close> is returned as it is when there is none.\<close>

fun str_replace :: "string \<Rightarrow> string \<Rightarrow> string \<Rightarrow> string" where
  "str_replace [] p r = (if p = [] then r else [])"
| "str_replace (c # s) p r =
     (if startsWith (c # s) p then r @ drop (length p) (c # s) else c # str_replace s p r)"

text \<open>\<open>s.split(sep)\<close> with a separator of one character.\<close>

fun str_split :: "string \<Rightarrow> char \<Rightarrow> string list" where
  "str_split [] d = [[]]"
| "str_split (c # s) d =
     (if c = d then [] # str_split s d
      else (case str_split s d of [] \<Rightarrow> [[c]] | w # ws \<Rightarrow> (c # w) # ws))"

section \<open>git-info-service: linked worktrees\<close>

text \<open>\<open>isWorktreePath\<close>: a linked worktree has \<open>.git\<close> as a file whose trimmed content
  starts with \<open>gitdir:\<close>; any exception of \<open>statSync\<close> or \<open>readFileSync\<close> is caught and
  the answer is \<open>false\<close>.\<close>

definition isWorktreePath :: "env \<Rightarrow> string \<Rightarrow> bool" where
  "isWorktreePath e dir =
     (let gitPath = path_join e dir ''.git'' in
      case statIsFile e gitPath of
        None \<Rightarrow> False
      | Some isFile \<Rightarrow>
          if isFile then
            (case readFileSync e gitPath of
               None \<Rightarrow> False
             | Some content \<Rightarrow> startsWith (trim content) ''gitdir:'')
          else False)"

section \<open>workspace-history-service\<close>

definition MAX_HISTORY_ENTRIES :: nat where
  "MAX_HISTORY_ENTRIES = 100"

definition getHistory :: "globalState \<Rightarrow> WorkspaceHistoryEntry js_record" where
  "getHistory st = workspaceHistory st"

definition updateHistory :: "WorkspaceHistoryEntry js_record \<Rightarrow> globalState \<Rightarrow> globalState" where
  "updateHistory h st =
     st\<lparr>workspaceHistory := h, updates := updates st @ [WORKSPACE_HISTORY_KEY]\<rparr>"

text \<open>\<open>entries.sort((a, b) => b.lastOpened - a.lastOpened)\<close>: \<open>Array.prototype.sort\<close> is
  stable, and so is \<open>sort_key\<close>; descending \<open>lastOpened\<close> is ascending \<open>- lastOpened\<close>.\<close>

definition sortByLastOpenedDesc :: "WorkspaceHistoryEntry list \<Rightarrow> WorkspaceHistoryEntry list" where
  "sortByLastOpenedDesc es = sort_key (\<lambda>e. - lastOpened e) es"

text \<open>\<open>pruneHistory\<close>: the entries after the first \<open>MAX_HISTORY_ENTRIES\<close> of the sorted
  list are deleted, each under the key \<open>entry.path\<close>.\<close>

definition pruneHistory :: "WorkspaceHistoryEntry js_record \<Rightarrow> WorkspaceHistoryEntry js_record" where
  "pruneHistory history =
     (let entries = map snd history in
      if length entries \<le> MAX_HISTORY_ENTRIES then history
      else
        let sorted = sortByLastOpenedDesc entries;
            toRemove = drop MAX_HISTORY_ENTRIES sorted
        in foldl (\<lambda>h entry. AList.delete (path entry) h) history toRemove)"

text \<open>The assignment part of \<open>recordOpen\<close>, before pruning.\<close>

definition bumpEntry :: "int \<Rightarrow> string \<Rightarrow> WorkspaceHistoryEntry js_record \<Rightarrow> WorkspaceHistoryEntry js_record" where
  "bumpEntry t dir history =
     (case map_of history dir of
        Some existing \<Rightarrow>
          AList.update dir (existing\<lparr>lastOpened := t, openCount := openCount existing + 1\<rparr>) history
      | None \<Rightarrow>
          AList.update dir \<lparr>path = dir, lastOpened = t, openCount = 1, firstOpened = t\<rparr> history)"

definition recordOpen :: "env \<Rightarrow> string \<Rightarrow> globalState \<Rightarrow> globalState" where
  "recordOpen e dir st =
     (if isWorktreePath e dir then st
      else updateHistory (pruneHistory (bumpEntry (now e) dir (getHistory st))) st)"

text \<open>\<open>recordCurrentWorkspace\<close>: \<open>folders\<close> is \<open>vscode.workspace.workspaceFolders\<close>, given by
  the \<open>fsPath\<close> of each folder (\<open>None\<close> for \<open>undefined\<close>).\<close>

definition recordCurrentWorkspace :: "env \<Rightarrow> string list option \<Rightarrow> globalState \<Rightarrow> globalState" where
  "recordCurrentWorkspace e folders st =
     (case folders of
        None \<Rightarrow> st
      | Some [] \<Rightarrow> st
      | Some (dir # _) \<Rightarrow> if isWorktreePath e dir then st else recordOpen e dir st)"

definition removeFromHistory :: "string \<Rightarrow> globalState \<Rightarrow> globalState" where
  "removeFromHistory dir st = updateHistory (AList.delete dir (getHistory st)) st"

definition getHistorySorted :: "globalState \<Rightarrow> WorkspaceHistoryEntry list" where
  "getHistorySorted st = sortByLastOpenedDesc (map snd (getHistory st))"

definition initializeTimestamp :: "string \<Rightarrow> int \<Rightarrow> globalState \<Rightarrow> bool \<times> globalState" where
  "initializeTimestamp dir timestamp st =
     (case map_of (getHistory st) dir of
        Some _ \<Rightarrow> (False, st)
      | None \<Rightarrow>
          (True, updateHistory
             (AList.update dir
                \<lparr>path = dir, lastOpened = timestamp, openCount = 0, firstOpened = timestamp\<rparr>
                (getHistory st)) st))"

definition getFrequentFolders :: "int \<Rightarrow> globalState \<Rightarrow> WorkspaceHistoryEntry list" where
  "getFrequentFolders minOpen st = filter (\<lambda>entry. minOpen \<le> openCount entry) (getHistorySorted st)"

text \<open>The history map is keyed by the entry's own path: every method that stores an
  entry stores it under \<open>entry.path\<close>.\<close>

definition history_wf :: "WorkspaceHistoryEntry js_record \<Rightarrow> bool" where
  "history_wf h = (distinct (map fst h) \<and> list_all (\<lambda>(k, entry). path entry = k) h)"

text \<open>\<open>Array.prototype.sort\<close> with a comparator: a stable insertion sort, \<open>x\<close> staying before
  \<open>y\<close> when the comparator does not put it after.\<close>

fun insort_cmp :: "('a \<Rightarrow> 'a \<Rightarrow> int) \<Rightarrow> 'a \<Rightarrow> 'a list \<Rightarrow> 'a list" where
  "insort_cmp cmp x [] = [x]"
| "insort_cmp cmp x (y # ys) =
     (if cmp x y \<le> 0 then x # y # ys else y # insort_cmp cmp x ys)"

definition sort_cmp :: "('a \<Rightarrow> 'a \<Rightarrow> int) \<Rightarrow> 'a list \<Rightarrow> 'a list" where
  "sort_cmp cmp xs = foldr (insort_cmp cmp) xs []"

datatype SortOrder = Recent | Alphabetical

datatype SortDirection = Asc | Desc

definition sortProjectsByRecent :: "globalState \<Rightarrow> Project list \<Rightarrow> Project list" where
  "sortProjectsByRecent st ps =
     sort_key (\<lambda>p. - (case map_of (getHistory st) (projectPath p) of
                         Some entry \<Rightarrow> lastOpened entry | None \<Rightarrow> 0)) ps"

definition sortProjectsByName :: "env \<Rightarrow> Project list \<Rightarrow> Project list" where
  "sortProjectsByName e ps =
     sort_cmp (\<lambda>a b. localeCompare e (toLowerCase e (projectName a))
                                    (toLowerCase e (projectName b))) ps"

definition sortProjects ::
  "env \<Rightarrow> globalState \<Rightarrow> Project list \<Rightarrow> SortOrder \<Rightarrow> SortDirection \<Rightarrow> Project list" where
  "sortProjects e st ps sortOrder sortDirection =
     (let (sorted, needsReverse) =
            (case sortOrder of
               Alphabetical \<Rightarrow> (sortProjectsByName e ps, sortDirection = Desc)
             | Recent \<Rightarrow> (sortProjectsByRecent st ps, sortDirection = Asc))
      in if needsReverse then rev sorted else sorted)"

text \<open>\<open>getRecentFolders\<close>. The two inner loops with \<open>break\<close> compute whether some project
  path (followed by the separator) is a prefix of the entry's path, and whether some
  component of the path ends with \<open>.worktrees\<close> and, with its first \<open>.worktrees\<close>
  removed, is the name of a project.\<close>

definition isSubfolderOfProject :: "env \<Rightarrow> string list \<Rightarrow> string \<Rightarrow> bool" where
  "isSubfolderOfProject e projectPaths dir =
     list_ex (\<lambda>pp. startsWith dir (pp @ [path_sep e])) projectPaths"

definition isWorktreeOfProject :: "env \<Rightarrow> string list \<Rightarrow> string \<Rightarrow> bool" where
  "isWorktreeOfProject e projectNames dir =
     (str_includes dir ''.worktrees'' \<and>
      list_ex (\<lambda>part. endsWith part ''.worktrees'' \<and>
                      str_replace part ''.worktrees'' [] \<in> set projectNames)
              (str_split dir (path_sep e)))"

definition toRecentFolder :: "env \<Rightarrow> WorkspaceHistoryEntry \<Rightarrow> RecentFolder" where
  "toRecentFolder e entry =
     \<lparr>folderName = path_basename e (path entry), folderPath = path entry,
      folderLastOpened = lastOpened entry, folderOpenCount = openCount entry\<rparr>"

text \<open>The main loop, returning \<open>folders\<close> and \<open>pathsToRemove\<close>.\<close>

fun recentFoldersLoop ::
  "env \<Rightarrow> string list \<Rightarrow> string list \<Rightarrow> WorkspaceHistoryEntry list
     \<Rightarrow> RecentFolder list \<times> string list" where
  "recentFoldersLoop e projectPaths projectNames [] = ([], [])"
| "recentFoldersLoop e projectPaths projectNames (entry # rest) =
     (let (folders, pathsToRemove) = recentFoldersLoop e projectPaths projectNames rest in
      if \<not> existsSync e (path entry) then (folders, path entry # pathsToRemove)
      else if path entry \<in> set projectPaths then (folders, pathsToRemove)
      else if isSubfolderOfProject e projectPaths (path entry) then (folders, pathsToRemove)
      else if isWorktreeOfProject e projectNames (path entry) then (folders, pathsToRemove)
      else (toRecentFolder e entry # folders, pathsToRemove))"

definition getRecentFolders ::
  "env \<Rightarrow> Project list \<Rightarrow> globalState \<Rightarrow> RecentFolder list \<times> globalState" where
  "getRecentFolders e excludeProjects st =
     (let history = getHistorySorted st;
          projectPaths = map projectPath excludeProjects;
          projectNames = map projectName excludeProjects;
          (folders, pathsToRemove) = recentFoldersLoop e projectPaths projectNames history
      in (folders, foldl (\<lambda>s pathToRemove. removeFromHistory pathToRemove s) st pathsToRemove))"

text \<open>What the main loop decides for one entry: it becomes a recent folder.\<close>

definition keptRecent :: "env \<Rightarrow> Project list \<Rightarrow> WorkspaceHistoryEntry \<Rightarrow> bool" where
  "keptRecent e ps entry =
     (existsSync e (path entry)
      \<and> path entry \<notin> projectPath ` set ps
      \<and> \<not> isSubfolderOfProject e (map projectPath ps) (path entry)
      \<and> \<not> isWorktreeOfProject e (map projectName ps) (path entry))"

section \<open>saved-projects-service\<close>

definition getSavedProjects :: "env \<Rightarrow> globalState \<Rightarrow> SavedProject list" where
  "getSavedProjects e st = filter (\<lambda>p. existsSync e (savedPath p)) (savedProjects st)"

definition isSaved :: "env \<Rightarrow> string \<Rightarrow> globalState \<Rightarrow> bool" where
  "isSaved e dir st = list_ex (\<lambda>p. savedPath p = dir) (getSavedProjects e st)"

section \<open>suggestion-service\<close>

definition POSTPONE_DURATION_DAYS :: int where
  "POSTPONE_DURATION_DAYS = 7"

definition getIgnoredPaths :: "globalState \<Rightarrow> string list" where
  "getIgnoredPaths st = ignoredSuggestionPaths st"

definition getPostponedSuggestions :: "globalState \<Rightarrow> PostponedSuggestion list" where
  "getPostponedSuggestions st = postponedSuggestions st"

definition updatePostponed :: "PostponedSuggestion list \<Rightarrow> globalState \<Rightarrow> globalState" where
  "updatePostponed ps st =
     st\<lparr>postponedSuggestions := ps, updates := updates st @ [POSTPONED_SUGGESTIONS_KEY]\<rparr>"

definition postponeSuggestion :: "env \<Rightarrow> string \<Rightarrow> globalState \<Rightarrow> globalState" where
  "postponeSuggestion e dir st =
     (let postponed = getPostponedSuggestions st;
          filtered = filter (\<lambda>p. postponedPath p \<noteq> dir) postponed
      in updatePostponed (filtered @ [\<lparr>postponedPath = dir, postponedAt = now e\<rparr>]) st)"

definition isPostponeExpired :: "env \<Rightarrow> PostponedSuggestion \<Rightarrow> bool" where
  "isPostponeExpired e suggestion =
     (let expireTime = postponedAt suggestion + POSTPONE_DURATION_DAYS * 24 * 60 * 60 * 1000
      in now e > expireTime)"

definition cleanupExpiredPostponements :: "env \<Rightarrow> globalState \<Rightarrow> globalState" where
  "cleanupExpiredPostponements e st =
     (let postponed = getPostponedSuggestions st;
          stillValid = filter (\<lambda>p. \<not> isPostponeExpired e p) postponed
      in if length stillValid \<noteq> length postponed then updatePostponed stillValid st else st)"

text \<open>The predicate of the final \<open>filter\<close> of \<open>getSuggestibleFolders\<close>, with the sets it
  closes over.\<close>

definition suggestible ::
  "env \<Rightarrow> int \<Rightarrow> string set \<Rightarrow> string set \<Rightarrow> string set \<Rightarrow> WorkspaceHistoryEntry \<Rightarrow> bool" where
  "suggestible e periodStart savedPaths ignoredPaths postponedPaths entry =
     (if path entry \<in> savedPaths then False
      else if path entry \<in> ignoredPaths then False
      else if path entry \<in> postponedPaths then False
      else if lastOpened entry < periodStart then False
      else if \<not> existsSync e (path entry) then False
      else if isWorktreePath e (path entry) then False
      else True)"

definition getSuggestibleFolders ::
  "env \<Rightarrow> SuggestionConfig \<Rightarrow> globalState \<Rightarrow> WorkspaceHistoryEntry list \<times> globalState" where
  "getSuggestibleFolders e config st =
     (if \<not> enabled config then ([], st)
      else
        let st1 = cleanupExpiredPostponements e st;
            periodStart = now e - timePeriodDays config * 24 * 60 * 60 * 1000;
            ignoredPaths = set (getIgnoredPaths st1);
            postponedPaths =
              set (map postponedPath
                     (filter (\<lambda>s. \<not> isPostponeExpired e s) (getPostponedSuggestions st1)));
            savedPaths = set (map savedPath (getSavedProjects e st1));
            frequentFolders = getFrequentFolders (minOpenCount config) st1
        in (filter (suggestible e periodStart savedPaths ignoredPaths postponedPaths)
              frequentFolders, st1))"

text \<open>Eligibility in the words of the specification, to be compared with what
  \<open>getSuggestibleFolders\<close> computes: suggestions are enabled, the folder was opened often
  enough, it is not saved, not ignored, not under an unexpired postponement, it was
  opened within the period, it exists, and it is not a linked worktree.\<close>

definition eligible :: "env \<Rightarrow> SuggestionConfig \<Rightarrow> globalState \<Rightarrow> WorkspaceHistoryEntry \<Rightarrow> bool" where
  "eligible e config st entry =
     (enabled config
      \<and> minOpenCount config \<le> openCount entry
      \<and> path entry \<notin> savedPath ` set (savedProjects st)
      \<and> path entry \<notin> set (ignoredSuggestionPaths st)
      \<and> \<not> (\<exists>s \<in> set (postponedSuggestions st).
              postponedPath s = path entry \<and> \<not> isPostponeExpired e s)
      \<and> now e - timePeriodDays config * 24 * 60 * 60 * 1000 \<le> lastOpened entry
      \<and> existsSync e (path entry)
      \<and> \<not> isWorktreePath e (path entry))"

section \<open>project-metadata-service\<close>

definition getAll :: "globalState \<Rightarrow> ProjectMetadata js_record" where
  "getAll st = projectMetadata st"

definition saveAll :: "ProjectMetadata js_record \<Rightarrow> globalState \<Rightarrow> globalState" where
  "saveAll data st = st\<lparr>projectMetadata := data, updates := updates st @ [METADATA_KEY]\<rparr>"

definition getMetadata :: "string \<Rightarrow> globalState \<Rightarrow> ProjectMetadata" where
  "getMetadata dir st =
     (case map_of (getAll st) dir of Some meta \<Rightarrow> meta | None \<Rightarrow> \<lparr>tagIds = []\<rparr>)"

definition getTags :: "string \<Rightarrow> globalState \<Rightarrow> string list" where
  "getTags dir st = tagIds (getMetadata dir st)"

definition setTags :: "string \<Rightarrow> string list \<Rightarrow> globalState \<Rightarrow> globalState" where
  "setTags dir tags st =
     (let all = getAll st
      in saveAll (if length tags = 0 then AList.delete dir all
                  else AList.update dir \<lparr>tagIds = tags\<rparr> all) st)"

definition addTag :: "string \<Rightarrow> string \<Rightarrow> globalState \<Rightarrow> globalState" where
  "addTag dir tagId st =
     (let tags = getTags dir st
      in if tagId \<notin> set tags then setTags dir (tags @ [tagId]) st else st)"

definition removeTag :: "string \<Rightarrow> string \<Rightarrow> globalState \<Rightarrow> globalState" where
  "removeTag dir tagId st =
     (let tags = getTags dir st;
          filtered = filter (\<lambda>id. id \<noteq> tagId) tags
      in setTags dir filtered st)"

definition getUntaggedProjects :: "string list \<Rightarrow> globalState \<Rightarrow> string list" where
  "getUntaggedProjects allProjectPaths st =
     (let all = getAll st
      in filter (\<lambda>p. case map_of all p of
                       None \<Rightarrow> True
                     | Some meta \<Rightarrow> length (tagIds meta) = 0) allProjectPaths)"

section \<open>tag-service\<close>

text \<open>Tags live in the configuration \<open>projectory.tags\<close>, a dictionary from the tag's name
  to its priority.\<close>

type_synonym TagsConfig = "int js_record"

definition getTags_TagService :: "TagsConfig \<Rightarrow> ProjectTag list" where
  "getTags_TagService cfg = map (\<lambda>(name, p). \<lparr>tagName = name, priority = p\<rparr>) cfg"

definition getTag :: "TagsConfig \<Rightarrow> string \<Rightarrow> ProjectTag option" where
  "getTag cfg name =
     (case map_of cfg name of None \<Rightarrow> None | Some p \<Rightarrow> Some \<lparr>tagName = name, priority = p\<rparr>)"

definition getTagsByPriority :: "env \<Rightarrow> TagsConfig \<Rightarrow> int \<Rightarrow> ProjectTag list" where
  "getTagsByPriority e cfg p =
     sort_cmp (\<lambda>a b. localeCompare e (tagName a) (tagName b))
       (filter (\<lambda>t. priority t = p) (getTags_TagService cfg))"

section \<open>projects-tree-provider: the by-tags view\<close>

text \<open>The provider's fields (\<open>_projects\<close>, \<open>_filterTagIds\<close>) together with what it reads
  from the configuration (\<open>tags\<close>, \<open>sortOrder\<close>, \<open>sortDirection\<close>, \<open>groupingDepth\<close>) and
  from the workspace (\<open>getCurrentWorkspacePath\<close>).\<close>

record ProjectsTreeProvider =
  projects :: "Project list"
  filterTagIds :: "string list"
  tags :: TagsConfig
  sortOrder :: SortOrder
  sortDirection :: SortDirection
  groupingDepth :: int
  currentWorkspacePath :: "string option"

text \<open>The tree elements of the by-tags view, with the arguments of their constructors:
  \<open>TagTreeItem(tag, displayName, tagPath, projectCount, hasChildren)\<close>,
  \<open>UntaggedTreeItem(projectCount)\<close> and
  \<open>ProjectTreeItem(project, isSaved, isCurrent, tagDescription)\<close>.\<close>

datatype ProjectsTreeElement =
  TagTreeItem ProjectTag string "string list" nat bool
  | UntaggedTreeItem nat
  | ProjectTreeItem Project bool bool "string option"

definition UNTAGGED :: string where
  "UNTAGGED = ''__untagged__''"

definition getProjectsWithAllTags ::
  "ProjectsTreeProvider \<Rightarrow> globalState \<Rightarrow> string list \<Rightarrow> Project list" where
  "getProjectsWithAllTags pr st ids =
     filter (\<lambda>project.
               let projectTags = getTags (projectPath project) st
               in list_all (\<lambda>tagId. tagId \<in> set projectTags) ids)
            (projects pr)"

definition getProjectCountWithTags ::
  "ProjectsTreeProvider \<Rightarrow> globalState \<Rightarrow> string list \<Rightarrow> nat" where
  "getProjectCountWithTags pr st ids = length (getProjectsWithAllTags pr st ids)"

definition getFilteredProjectCountUnderTag ::
  "ProjectsTreeProvider \<Rightarrow> globalState \<Rightarrow> string list \<Rightarrow> string list \<Rightarrow> nat" where
  "getFilteredProjectCountUnderTag pr st tagPath filterIds =
     length (filter (\<lambda>project.
               let projectTags = getTags (projectPath project) st;
                   hasPathTags = list_all (\<lambda>tagId. tagId \<in> set projectTags) tagPath
               in if \<not> hasPathTags then False
                  else list_ex (\<lambda>filterId. filterId \<in> set projectTags) filterIds)
            (projects pr))"

text \<open>\<open>filterTagNames.some((fn) => pTags.includes(fn))\<close> for the tags of a project.\<close>

definition matchesFilter :: "globalState \<Rightarrow> string list \<Rightarrow> Project \<Rightarrow> bool" where
  "matchesFilter st filterTagNames project =
     (let pTags = getTags (projectPath project) st
      in list_ex (\<lambda>fn. fn \<in> set pTags) filterTagNames)"

definition rootTagItem ::
  "ProjectsTreeProvider \<Rightarrow> globalState \<Rightarrow> ProjectTag \<Rightarrow> ProjectsTreeElement list" where
  "rootTagItem pr st tag =
     (let count = getProjectCountWithTags pr st [tagName tag]
      in if count > 0 then
           [TagTreeItem tag (tagName tag) [tagName tag] count (groupingDepth pr > 0)]
         else [])"

definition filteredRootTagItem ::
  "ProjectsTreeProvider \<Rightarrow> globalState \<Rightarrow> string list \<Rightarrow> ProjectTag \<Rightarrow> ProjectsTreeElement list" where
  "filteredRootTagItem pr st filterTagNames rootTag =
     (let count = getFilteredProjectCountUnderTag pr st [tagName rootTag] filterTagNames
      in if count > 0 then
           (let isFilterTag = tagName rootTag \<in> set filterTagNames;
                hasChildren = (\<not> isFilterTag \<and> groupingDepth pr > 0)
            in [TagTreeItem rootTag (tagName rootTag) [tagName rootTag] count hasChildren])
         else [])"

text \<open>\<open>getTagHierarchyRoot\<close>; each \<open>for\<close> loop pushes the items of one tag after those of
  the tags before it.\<close>

definition getTagHierarchyRoot ::
  "env \<Rightarrow> ProjectsTreeProvider \<Rightarrow> globalState \<Rightarrow> ProjectsTreeElement list" where
  "getTagHierarchyRoot e pr st =
     (let allPaths = map projectPath (projects pr);
          untaggedPaths = getUntaggedProjects allPaths st
      in if length (filterTagIds pr) > 0 then
           (let hasUntaggedFilter = UNTAGGED \<in> set (filterTagIds pr);
                items = (if hasUntaggedFilter \<and> length untaggedPaths > 0
                         then [UntaggedTreeItem (length untaggedPaths)] else []);
                filterTagNames = filter (\<lambda>name. name \<noteq> UNTAGGED) (filterTagIds pr)
            in if length filterTagNames > 0 then
                 items @ concat (map (filteredRootTagItem pr st filterTagNames)
                                     (getTagsByPriority e (tags pr) 0))
               else items)
         else
           concat (map (rootTagItem pr st) (getTagsByPriority e (tags pr) 0))
           @ (if length untaggedPaths > 0 then [UntaggedTreeItem (length untaggedPaths)] else []))"

text \<open>One round of the loop over the tags of the next priority in \<open>getTagChildren\<close>: the
  accumulator holds \<open>items\<close> and \<open>groupedProjectPaths\<close>.\<close>

definition subTagStep ::
  "ProjectsTreeProvider \<Rightarrow> globalState \<Rightarrow> string list \<Rightarrow> int \<Rightarrow> string list
     \<Rightarrow> ProjectsTreeElement list \<times> string list \<Rightarrow> ProjectTag
     \<Rightarrow> ProjectsTreeElement list \<times> string list" where
  "subTagStep pr st tagPath nextPriority filterTagNames acc tag =
     (let (items, groupedProjectPaths) = acc;
          newTagPath = tagPath @ [tagName tag]
      in if length filterTagNames > 0 then
           (let isFilterTag = tagName tag \<in> set filterTagNames;
                matchingProjects = filter (matchesFilter st filterTagNames)
                                          (getProjectsWithAllTags pr st newTagPath)
            in if length matchingProjects > 0 then
                 (let hasMoreChildren = (\<not> isFilterTag \<and> nextPriority < groupingDepth pr)
                  in (items @ [TagTreeItem tag (tagName tag) newTagPath
                                 (length matchingProjects) hasMoreChildren],
                      if isFilterTag
                      then groupedProjectPaths @ map projectPath matchingProjects
                      else groupedProjectPaths))
               else (items, groupedProjectPaths))
         else
           (let matchingProjects = getProjectsWithAllTags pr st newTagPath
            in if length matchingProjects > 0 then
                 (let hasMoreChildren = (nextPriority < groupingDepth pr)
                  in (items @ [TagTreeItem tag (tagName tag) newTagPath
                                 (length matchingProjects) hasMoreChildren],
                      groupedProjectPaths @ map projectPath matchingProjects))
               else (items, groupedProjectPaths)))"

text \<open>\<open>parts.join(sep)\<close>.\<close>

fun js_join :: "string \<Rightarrow> string list \<Rightarrow> string" where
  "js_join d [] = []"
| "js_join d [x] = x"
| "js_join d (x # y # ys) = x @ d @ js_join d (y # ys)"

definition projectItem ::
  "env \<Rightarrow> ProjectsTreeProvider \<Rightarrow> globalState \<Rightarrow> string list \<Rightarrow> Project \<Rightarrow> ProjectsTreeElement" where
  "projectItem e pr st tagPath project =
     (let projectTagNames = getTags (projectPath project) st;
          remainingTags =
            map tagName
              (List.map_filter (getTag (tags pr))
                 (filter (\<lambda>name. name \<notin> set tagPath) projectTagNames));
          tagDescription =
            (if length remainingTags > 0
             then Some (js_join '' '' (map (\<lambda>n. ''['' @ n @ '']'') remainingTags))
             else None);
          saved = isSaved e (projectPath project) st;
          isCurrent = (currentWorkspacePath pr = Some (projectPath project))
      in ProjectTreeItem project saved isCurrent tagDescription)"

definition getTagChildren ::
  "env \<Rightarrow> ProjectsTreeProvider \<Rightarrow> globalState \<Rightarrow> ProjectTag \<Rightarrow> string list
     \<Rightarrow> ProjectsTreeElement list" where
  "getTagChildren e pr st parentTag tagPath =
     (let currentPriority = priority parentTag;
          nextPriority = currentPriority + 1;
          filterTagNames = filter (\<lambda>name. name \<noteq> UNTAGGED) (filterTagIds pr);
          isFiltered = (length filterTagNames > 0);
          projectsWithAllTags = getProjectsWithAllTags pr st tagPath;
          (items, groupedProjectPaths) =
            (if currentPriority < groupingDepth pr
             then foldl (subTagStep pr st tagPath nextPriority filterTagNames) ([], [])
                        (getTagsByPriority e (tags pr) nextPriority)
             else ([], []));
          projectsAtThisLevel =
            filter (\<lambda>project.
                      if projectPath project \<in> set groupedProjectPaths then False
                      else if isFiltered then
                        (let matches = matchesFilter st filterTagNames project;
                             currentIsFilter = tagName parentTag \<in> set filterTagNames
                         in if \<not> matches \<or> \<not> currentIsFilter then False else True)
                      else True)
                   projectsWithAllTags;
          sortedProjects = sortProjects e st projectsAtThisLevel (sortOrder pr) (sortDirection pr)
      in items @ map (projectItem e pr st tagPath) sortedProjects)"

text \<open>What a list of tree elements shows: its tag nodes, as the tag and the tag path
  each carries, whether it has an untagged group, and the projects it lists.\<close>

fun tagNodes :: "ProjectsTreeElement list \<Rightarrow> (ProjectTag \<times> string list) list" where
  "tagNodes [] = []"
| "tagNodes (TagTreeItem tag label tagPath n hasChildren # xs) = (tag, tagPath) # tagNodes xs"
| "tagNodes (x # xs) = tagNodes xs"

fun hasUntaggedGroup :: "ProjectsTreeElement list \<Rightarrow> bool" where
  "hasUntaggedGroup [] = False"
| "hasUntaggedGroup (UntaggedTreeItem n # xs) = True"
| "hasUntaggedGroup (x # xs) = hasUntaggedGroup xs"

fun listedProjects :: "ProjectsTreeElement list \<Rightarrow> Project list" where
  "listedProjects [] = []"
| "listedProjects (ProjectTreeItem project saved isCurrent description # xs) =
     project # listedProjects xs"
| "listedProjects (x # xs) = listedProjects xs"

text \<open>A project carries every tag name of a tag path.\<close>

definition carriesAll :: "globalState \<Rightarrow> string list \<Rightarrow> Project \<Rightarrow> bool" where
  "carriesAll st names project = (set names \<subseteq> set (getTags (projectPath project) st))"

section \<open>Concrete hosts and stores\<close>

text \<open>A POSIX host at time \<open>1000\<close> where every path but \<open>/gone\<close> exists, \<open>/wt\<close> is a
  linked worktree and strings compare by their code units; the empty store, a store
  with a small history, and the store after \<open>initializeTimestamp\<close> has been called for
  \<open>n\<close> newly discovered projects whose last commit is dated \<open>2000\<close>.\<close>

fun codeUnitCompare :: "string \<Rightarrow> string \<Rightarrow> int" where
  "codeUnitCompare [] [] = 0"
| "codeUnitCompare [] (y # ys) = - 1"
| "codeUnitCompare (x # xs) [] = 1"
| "codeUnitCompare (x # xs) (y # ys) =
     (if x = y then codeUnitCompare xs ys
      else if (of_char x :: nat) < of_char y then - 1 else 1)"

definition asciiLower :: "string \<Rightarrow> string" where
  "asciiLower s =
     map (\<lambda>c. if 65 \<le> (of_char c :: nat) \<and> (of_char c :: nat) \<le> 90
              then char_of (of_char c + (32 :: nat)) else c) s"

definition e0 :: env where
  "e0 = \<lparr>now = 1000, existsSync = (\<lambda>p. p \<noteq> ''/gone''),
     statIsFile = (\<lambda>p. if p = ''/wt/.git'' then Some True else None),
     readFileSync = (\<lambda>p. if p = ''/wt/.git'' then Some ''gitdir: /repo/.git/worktrees/wt'' else None),
     path_join = (\<lambda>a b. a @ ''/'' @ b),
     path_basename = (\<lambda>p. last (str_split p CHR ''/'')), path_sep = CHR ''/'',
     localeCompare = codeUnitCompare, toLowerCase = asciiLower\<rparr>"

definition emptyState :: globalState where
  "emptyState = \<lparr>workspaceHistory = [], ignoredSuggestionPaths = [], postponedSuggestions = [],
     savedProjects = [], excludedPaths = [], projectMetadata = [], updates = []\<rparr>"

definition projectDir :: "nat \<Rightarrow> string" where
  "projectDir i = ''/p'' @ replicate i CHR ''x''"

definition manyProjects :: "nat \<Rightarrow> globalState" where
  "manyProjects n =
     foldl (\<lambda>s i. snd (initializeTimestamp (projectDir i) 2000 s)) emptyState [0..<n]"

definition smallState :: globalState where
  "smallState = emptyState\<lparr>workspaceHistory :=
     [(''/a'', \<lparr>path = ''/a'', lastOpened = 500, openCount = 3, firstOpened = 10\<rparr>),
      (''/b'', \<lparr>path = ''/b'', lastOpened = 700, openCount = 1, firstOpened = 700\<rparr>)]\<rparr>"

text \<open>A host a hundred days after the epoch, a suggestion configuration, and a store
  with one history entry for each way of being or not being eligible; the postponement
  of \<open>/later\<close> expires at this very millisecond, the one of \<open>/again\<close> a millisecond
  earlier. Last, a store with tags on two projects.\<close>

definition config0 :: SuggestionConfig where
  "config0 = \<lparr>enabled = True, minOpenCount = 3, timePeriodDays = 14\<rparr>"

definition day :: int where
  "day = 24 * 60 * 60 * 1000"

definition e1 :: env where
  "e1 = e0\<lparr>now := 100 * day\<rparr>"

definition suggestionState :: globalState where
  "suggestionState = emptyState\<lparr>
     workspaceHistory :=
       [(''/good'', \<lparr>path = ''/good'', lastOpened = 99 * day, openCount = 5, firstOpened = 0\<rparr>),
        (''/rare'', \<lparr>path = ''/rare'', lastOpened = 99 * day, openCount = 2, firstOpened = 0\<rparr>),
        (''/saved'', \<lparr>path = ''/saved'', lastOpened = 99 * day, openCount = 5, firstOpened = 0\<rparr>),
        (''/ignored'', \<lparr>path = ''/ignored'', lastOpened = 99 * day, openCount = 5, firstOpened = 0\<rparr>),
        (''/later'', \<lparr>path = ''/later'', lastOpened = 99 * day, openCount = 5, firstOpened = 0\<rparr>),
        (''/again'', \<lparr>path = ''/again'', lastOpened = 98 * day, openCount = 9, firstOpened = 0\<rparr>),
        (''/old'', \<lparr>path = ''/old'', lastOpened = 80 * day, openCount = 5, firstOpened = 0\<rparr>),
        (''/gone'', \<lparr>path = ''/gone'', lastOpened = 99 * day, openCount = 5, firstOpened = 0\<rparr>),
        (''/wt'', \<lparr>path = ''/wt'', lastOpened = 99 * day, openCount = 5, firstOpened = 0\<rparr>)],
     ignoredSuggestionPaths := [''/ignored''],
     postponedSuggestions :=
       [\<lparr>postponedPath = ''/later'', postponedAt = 93 * day\<rparr>,
        \<lparr>postponedPath = ''/again'', postponedAt = 93 * day - 1\<rparr>],
     savedProjects := [\<lparr>savedName = ''saved'', savedPath = ''/saved'', savedAt = 0\<rparr>]\<rparr>"

definition tagState :: globalState where
  "tagState = emptyState\<lparr>projectMetadata :=
     [(''/a'', \<lparr>tagIds = [''web'', ''rust'']\<rparr>), (''/b'', \<lparr>tagIds = [''web'']\<rparr>)]\<rparr>"

text \<open>A history with a folder under the worktrees directory of the project \<open>app\<close>, one
  under that of the project \<open>a.worktreesb\<close>, a folder that is gone, a subfolder of a
  project and an unrelated folder; then a by-tags view of five projects, without a
  filter, filtered by the tag \<open>rust\<close> of priority 1 and filtered by the tag \<open>web\<close> of
  priority 0.\<close>

definition recentState :: globalState where
  "recentState = emptyState\<lparr>workspaceHistory :=
     [(''/r/app.worktrees/feat'',
         \<lparr>path = ''/r/app.worktrees/feat'', lastOpened = 900, openCount = 2, firstOpened = 1\<rparr>),
      (''/r/a.worktreesb.worktrees/feat'',
         \<lparr>path = ''/r/a.worktreesb.worktrees/feat'', lastOpened = 800, openCount = 2, firstOpened = 1\<rparr>),
      (''/gone'', \<lparr>path = ''/gone'', lastOpened = 850, openCount = 1, firstOpened = 1\<rparr>),
      (''/r/app/src'', \<lparr>path = ''/r/app/src'', lastOpened = 950, openCount = 1, firstOpened = 1\<rparr>),
      (''/tmp/x'', \<lparr>path = ''/tmp/x'', lastOpened = 990, openCount = 4, firstOpened = 1\<rparr>)]\<rparr>"

definition recentProjects :: "Project list" where
  "recentProjects =
     [\<lparr>projectName = ''app'', projectPath = ''/r/app''\<rparr>,
      \<lparr>projectName = ''a.worktreesb'', projectPath = ''/r/a.worktreesb''\<rparr>]"

definition treeView :: ProjectsTreeProvider where
  "treeView = \<lparr>projects =
       [\<lparr>projectName = ''a'', projectPath = ''/a''\<rparr>, \<lparr>projectName = ''b'', projectPath = ''/b''\<rparr>,
        \<lparr>projectName = ''c'', projectPath = ''/c''\<rparr>, \<lparr>projectName = ''d'', projectPath = ''/d''\<rparr>,
        \<lparr>projectName = ''e'', projectPath = ''/e''\<rparr>],
     filterTagIds = [],
     tags = [(''web'', 0), (''rust'', 1), (''docs'', 0), (''vue'', 1)],
     sortOrder = Recent, sortDirection = Desc, groupingDepth = 1,
     currentWorkspacePath = Some ''/a''\<rparr>"

definition treeState :: globalState where
  "treeState = emptyState\<lparr>projectMetadata :=
     [(''/a'', \<lparr>tagIds = [''web'', ''rust'']\<rparr>), (''/b'', \<lparr>tagIds = [''web'', ''vue'']\<rparr>),
      (''/d'', \<lparr>tagIds = [''docs'']\<rparr>), (''/e'', \<lparr>tagIds = [''web'']\<rparr>)]\<rparr>"

definition filteredView :: ProjectsTreeProvider where
  "filteredView = treeView\<lparr>filterTagIds := [''rust'']\<rparr>"

definition webFilteredView :: ProjectsTreeProvider where
  "webFilteredView = treeView\<lparr>filterTagIds := [''web'']\<rparr>"

section \<open>Properties of the workspace history\<close>

lemma foldl_delete_conv:
  "foldl (\<lambda>h entry. AList.delete (path entry) h) h rs = filter (\<lambda>(k, v). k \<notin> path ` set rs) h"
proof (induction rs arbitrary: h)
  case Nil
  then show ?case by simp
next
  case (Cons r rs)
  have "filter (\<lambda>(k, v). k \<notin> path ` set rs) (AList.delete (path r) h)
        = filter (\<lambda>(k, v). k \<notin> path ` set (r # rs)) h"
    by (induction h) (auto simp: AList.delete_eq)
  with Cons show ?case by simp
qed

lemma pruneHistory_filter:
  "\<exists>P. pruneHistory h = filter P h"
proof (cases "length h \<le> MAX_HISTORY_ENTRIES")
  case True
  then have "pruneHistory h = filter (\<lambda>_. True) h" by (simp add: pruneHistory_def)
  then show ?thesis by blast
next
  case False
  then show ?thesis
    by (auto simp: pruneHistory_def Let_def foldl_delete_conv)
qed

lemma map_of_filter_distinct:
  "distinct (map fst h) \<Longrightarrow> map_of (filter P h) k = None \<or> map_of (filter P h) k = map_of h k"
  by (induction h) (auto simp: rev_image_eqI map_of_eq_None_iff)

lemma history_wf_filter: "history_wf h \<Longrightarrow> history_wf (filter P h)"
  by (auto simp: history_wf_def distinct_map_filter list_all_iff)

lemma set_update_subset: "set (AList.update k v h) \<subseteq> insert (k, v) (set h)"
  by (induction h) auto

lemma history_wf_update:
  "history_wf h \<Longrightarrow> path v = k \<Longrightarrow> history_wf (AList.update k v h)"
  unfolding history_wf_def using set_update_subset[of k v h]
  by (auto simp: distinct_update list_all_iff)

lemma history_wf_map_of: "history_wf h \<Longrightarrow> map_of h k = Some v \<Longrightarrow> path v = k"
  by (auto simp: history_wf_def list_all_iff dest: map_of_SomeD)

lemma history_wf_bumpEntry: "history_wf h \<Longrightarrow> history_wf (bumpEntry t dir h)"
  by (auto simp: bumpEntry_def history_wf_update history_wf_map_of split: option.splits)

lemma history_wf_pruneHistory: "history_wf h \<Longrightarrow> history_wf (pruneHistory h)"
  using pruneHistory_filter[of h] by (auto simp: history_wf_filter)

lemma update_fresh: "map_of h k = None \<Longrightarrow> AList.update k v h = h @ [(k, v)]"
  by (induction h) (auto split: if_splits)

text \<open>Entries of a well-formed history are told apart by their paths.\<close>
lemma history_wf_inj:
  assumes "history_wf h" "(k, v) \<in> set h" "(k', v') \<in> set h" "path v = path v'"
  shows "k = k' \<and> v = v'"
proof -
  from assms have "k = path v" "k' = path v'" by (auto simp: history_wf_def list_all_iff)
  with assms have "k = k'" by simp
  moreover from assms have "distinct (map fst h)" by (simp add: history_wf_def)
  ultimately show ?thesis using assms(2,3) by (auto dest: eq_key_imp_eq_value)
qed

lemma history_wf_distinct_values: "history_wf h \<Longrightarrow> distinct (map snd h)"
proof -
  assume wf: "history_wf h"
  then have d: "distinct h" by (auto simp: history_wf_def distinct_map)
  have "inj_on snd (set h)"
    by (rule inj_onI) (use wf history_wf_inj in \<open>force\<close>)
  with d show ?thesis by (simp add: distinct_map)
qed

lemma set_sortByLastOpenedDesc [simp]: "set (sortByLastOpenedDesc es) = set es"
  by (simp add: sortByLastOpenedDesc_def)

lemma length_sortByLastOpenedDesc [simp]: "length (sortByLastOpenedDesc es) = length es"
  by (simp add: sortByLastOpenedDesc_def)

lemma distinct_sortByLastOpenedDesc [simp]: "distinct (sortByLastOpenedDesc es) = distinct es"
  by (simp add: sortByLastOpenedDesc_def)

lemma sortByLastOpenedDesc_take_drop:
  assumes "a \<in> set (take n (sortByLastOpenedDesc es))" "b \<in> set (drop n (sortByLastOpenedDesc es))"
  shows "lastOpened b \<le> lastOpened a"
proof -
  let ?s = "sortByLastOpenedDesc es"
  have "sorted (map (\<lambda>e. - lastOpened e) ?s)" by (simp add: sortByLastOpenedDesc_def)
  then have "sorted (map (\<lambda>e. - lastOpened e) (take n ?s) @ map (\<lambda>e. - lastOpened e) (drop n ?s))"
    by (simp flip: map_append)
  with assms have "- lastOpened a \<le> - lastOpened b"
    by (auto simp: sorted_append)
  then show ?thesis by simp
qed

text \<open>With keys equal to paths, pruning keeps exactly the first 100 of the sorted entries.\<close>
lemma pruneHistory_conv:
  assumes wf: "history_wf h" and big: "MAX_HISTORY_ENTRIES < length h"
  shows "pruneHistory h =
         filter (\<lambda>(k, v). v \<in> set (take MAX_HISTORY_ENTRIES (sortByLastOpenedDesc (map snd h)))) h"
proof -
  let ?s = "sortByLastOpenedDesc (map snd h)"
  let ?n = MAX_HISTORY_ENTRIES
  have ds: "distinct ?s" using wf by (simp add: history_wf_distinct_values)
  have split: "set (take ?n ?s) \<union> set (drop ?n ?s) = snd ` set h"
    using set_append[of "take ?n ?s" "drop ?n ?s"] by (simp del: set_append)
  have disj: "set (take ?n ?s) \<inter> set (drop ?n ?s) = {}"
    using ds distinct_append[of "take ?n ?s" "drop ?n ?s"] by simp
  have "k \<notin> path ` set (drop ?n ?s) \<longleftrightarrow> v \<in> set (take ?n ?s)" if kv: "(k, v) \<in> set h" for k v
  proof
    assume "k \<notin> path ` set (drop ?n ?s)"
    moreover have "k = path v" using wf kv by (auto simp: history_wf_def list_all_iff)
    ultimately have "v \<notin> set (drop ?n ?s)" by auto
    moreover have "v \<in> snd ` set h" using kv by force
    ultimately show "v \<in> set (take ?n ?s)" using split by blast
  next
    assume v: "v \<in> set (take ?n ?s)"
    show "k \<notin> path ` set (drop ?n ?s)"
    proof
      assume "k \<in> path ` set (drop ?n ?s)"
      then obtain r where r: "r \<in> set (drop ?n ?s)" "k = path r" by auto
      then have "r \<in> snd ` set h" using split by blast
      then obtain k' where k': "(k', r) \<in> set h" by force
      have "k = path v" using wf kv by (auto simp: history_wf_def list_all_iff)
      with r have "path v = path r" by simp
      with wf kv k' have "v = r" by (auto dest: history_wf_inj)
      with r v disj show False by blast
    qed
  qed
  then have "filter (\<lambda>(k, v). k \<notin> path ` set (drop ?n ?s)) h
           = filter (\<lambda>(k, v). v \<in> set (take ?n ?s)) h"
    by (intro filter_cong) auto
  with big show ?thesis
    by (simp add: pruneHistory_def Let_def foldl_delete_conv)
qed

lemma length_pruneHistory:
  assumes wf: "history_wf h"
  shows "length (pruneHistory h) = min (length h) MAX_HISTORY_ENTRIES"
proof (cases "length h \<le> MAX_HISTORY_ENTRIES")
  case True
  then show ?thesis by (simp add: pruneHistory_def)
next
  case False
  let ?s = "sortByLastOpenedDesc (map snd h)"
  let ?n = MAX_HISTORY_ENTRIES
  let ?K = "set (take ?n ?s)"
  from False have big: "?n < length h" by simp
  have dv: "distinct (map snd h)" using wf by (rule history_wf_distinct_values)
  have sub: "?K \<subseteq> set (map snd h)" using set_take_subset[of ?n ?s] by simp
  have "pruneHistory h = filter ((\<lambda>v. v \<in> ?K) \<circ> snd) h"
    by (simp add: pruneHistory_conv[OF wf big] o_def case_prod_unfold)
  then have "length (pruneHistory h) = length (map snd (filter ((\<lambda>v. v \<in> ?K) \<circ> snd) h))"
    by simp
  also have "\<dots> = length (filter (\<lambda>v. v \<in> ?K) (map snd h))"
    by (simp only: filter_map)
  also have "\<dots> = card (set (filter (\<lambda>v. v \<in> ?K) (map snd h)))"
    using dv distinct_card[of "filter (\<lambda>v. v \<in> ?K) (map snd h)"] distinct_filter by metis
  also have "set (filter (\<lambda>v. v \<in> ?K) (map snd h)) = ?K" using sub by auto
  also have "card ?K = length (take ?n ?s)"
    using dv by (intro distinct_card) simp
  also have "\<dots> = ?n" using big by simp
  finally show ?thesis using big by simp
qed

lemma pruneHistory_order:
  assumes wf: "history_wf h"
    and kept: "kept \<in> set (pruneHistory h)"
    and removed: "removed \<in> set h" "removed \<notin> set (pruneHistory h)"
  shows "lastOpened (snd removed) \<le> lastOpened (snd kept)"
proof (cases "length h \<le> MAX_HISTORY_ENTRIES")
  case True
  with removed show ?thesis by (simp add: pruneHistory_def)
next
  case False
  let ?s = "sortByLastOpenedDesc (map snd h)"
  let ?n = MAX_HISTORY_ENTRIES
  from False have big: "?n < length h" by simp
  note conv = pruneHistory_conv[OF wf big]
  from kept have k: "snd kept \<in> set (take ?n ?s)" by (auto simp: conv)
  from removed have "snd removed \<notin> set (take ?n ?s)" by (auto simp: conv)
  moreover have "set ?s = set (take ?n ?s) \<union> set (drop ?n ?s)"
    by (metis append_take_drop_id set_append)
  moreover from removed have "snd removed \<in> set ?s" by force
  ultimately have "snd removed \<in> set (drop ?n ?s)" by blast
  with k show ?thesis by (rule sortByLastOpenedDesc_take_drop)
qed

lemma startsWith_trim:
  assumes "startsWith content p" "p \<noteq> []" "\<not> isWhiteSpace (hd p)" "\<not> isWhiteSpace (last p)"
  shows "startsWith (trim content) p"
proof -
  from assms(1) have "take (length p) content = p" by (simp add: startsWith_def)
  then obtain rest where c: "content = p @ rest" by (metis append_take_drop_id)
  from assms(2,3) have d1: "dropWhile isWhiteSpace content = content"
    unfolding c by (cases p) auto
  have "\<exists>zs. dropWhile isWhiteSpace (rev content) = zs @ rev p"
  proof (cases "\<forall>x\<in>set (rev rest). isWhiteSpace x")
    case True
    have "dropWhile isWhiteSpace (rev p) = rev p"
      using assms(2,4) by (cases "rev p") (auto simp: last_rev[symmetric] hd_rev)
    with True have "dropWhile isWhiteSpace (rev content) = [] @ rev p"
      unfolding c by (simp add: dropWhile_append)
    then show ?thesis by blast
  next
    case False
    then have "dropWhile isWhiteSpace (rev content) = dropWhile isWhiteSpace (rev rest) @ rev p"
      unfolding c by (auto simp: dropWhile_append)
    then show ?thesis by blast
  qed
  then obtain zs where "dropWhile isWhiteSpace (rev content) = zs @ rev p" by blast
  with d1 show ?thesis by (simp add: trim_def startsWith_def)
qed

lemma isWorktreePath_gitdir:
  assumes "statIsFile e (path_join e dir ''.git'') = Some True"
    and "readFileSync e (path_join e dir ''.git'') = Some content"
    and "startsWith content ''gitdir:''"
  shows "isWorktreePath e dir"
proof -
  have "startsWith (trim content) ''gitdir:''"
    by (rule startsWith_trim[OF assms(3)]) (simp_all add: isWhiteSpace_def)
  with assms(1,2) show ?thesis by (simp add: isWorktreePath_def)
qed

section \<open>C9: recording a linked worktree\<close>

text \<open>Claim C9. When \<open>.git\<close> in the opened folder is a file whose content starts with
  \<open>gitdir:\<close>, \<open>recordOpen\<close> returns the store exactly as it was: the history is the
  same and no update is issued. \<open>recordCurrentWorkspace\<close> on a workspace whose first
  folder is such a path does the same.\<close>

theorem recordOpen_worktree_noop:
  assumes "statIsFile e (path_join e dir ''.git'') = Some True"
    and "readFileSync e (path_join e dir ''.git'') = Some content"
    and "startsWith content ''gitdir:''"
  shows "recordOpen e dir st = st \<and> recordCurrentWorkspace e (Some (dir # others)) st = st"
  using isWorktreePath_gitdir[OF assms]
  by (simp add: recordOpen_def recordCurrentWorkspace_def)

text \<open>The theorem at the worktree \<open>/wt\<close> of the concrete host.\<close>

theorem recordOpen_worktree_noop_witness:
  "statIsFile e0 (path_join e0 ''/wt'' ''.git'') = Some True
   \<and> readFileSync e0 (path_join e0 ''/wt'' ''.git'') = Some ''gitdir: /repo/.git/worktrees/wt''
   \<and> startsWith ''gitdir: /repo/.git/worktrees/wt'' ''gitdir:''
   \<and> recordOpen e0 ''/wt'' smallState = smallState
   \<and> recordCurrentWorkspace e0 (Some [''/wt'', ''/a'']) smallState = smallState"
  using recordOpen_worktree_noop[of e0 "''/wt''" "''gitdir: /repo/.git/worktrees/wt''" smallState "[''/a'']"]
  by (simp add: e0_def startsWith_def)

section \<open>Pruning and the recorded entry\<close>

lemma not_worktree_e0: "dir \<noteq> ''/wt'' \<Longrightarrow> \<not> isWorktreePath e0 dir"
  by (simp add: isWorktreePath_def e0_def)

lemma projectDir_inj: "projectDir i = projectDir j \<longleftrightarrow> i = j"
proof
  assume "projectDir i = projectDir j"
  then have "length (projectDir i) = length (projectDir j)" by simp
  then show "i = j" by (simp add: projectDir_def)
qed simp

lemma manyProjects_history:
  "workspaceHistory (manyProjects n) =
     map (\<lambda>i. (projectDir i,
                \<lparr>path = projectDir i, lastOpened = 2000, openCount = 0, firstOpened = 2000\<rparr>))
         [0..<n]"
proof (induction n)
  case 0
  then show ?case by (simp add: manyProjects_def emptyState_def)
next
  case (Suc n)
  let ?f = "\<lambda>i. (projectDir i,
                \<lparr>path = projectDir i, lastOpened = 2000, openCount = 0, firstOpened = 2000\<rparr>)"
  have step: "manyProjects (Suc n) = snd (initializeTimestamp (projectDir n) 2000 (manyProjects n))"
    by (simp add: manyProjects_def)
  have "projectDir n \<notin> fst ` set (map ?f [0..<n])"
    by (auto simp: projectDir_inj)
  then have fresh: "map_of (map ?f [0..<n]) (projectDir n) = None"
    by (simp only: map_of_eq_None_iff not_False_eq_True)
  show ?case
    unfolding step using fresh Suc
    by (simp add: initializeTimestamp_def getHistory_def updateHistory_def update_fresh)
qed

lemma manyProjects_wf: "history_wf (workspaceHistory (manyProjects n))"
  by (simp add: manyProjects_history history_wf_def distinct_map list_all_iff inj_on_def projectDir_inj o_def)

lemma manyProjects_length: "length (workspaceHistory (manyProjects n)) = n"
  by (simp add: manyProjects_history)

lemma manyProjects_lastOpened:
  "(k, v) \<in> set (workspaceHistory (manyProjects n)) \<Longrightarrow> lastOpened v = 2000"
  by (auto simp: manyProjects_history)

lemma manyProjects_new: "map_of (workspaceHistory (manyProjects n)) ''/new'' = None"
  by (auto simp: manyProjects_history map_of_eq_None_iff projectDir_def)

lemma workspaceHistory_recordOpen:
  "\<not> isWorktreePath e dir \<Longrightarrow>
   workspaceHistory (recordOpen e dir st) = pruneHistory (bumpEntry (now e) dir (workspaceHistory st))"
  by (simp add: recordOpen_def updateHistory_def getHistory_def)

lemma map_of_pruneHistory:
  "distinct (map fst h) \<Longrightarrow> map_of (pruneHistory h) k = None \<or> map_of (pruneHistory h) k = map_of h k"
  using pruneHistory_filter[of h] map_of_filter_distinct by force

lemma set_pruneHistory: "set (pruneHistory h) \<subseteq> set h"
  using pruneHistory_filter[of h] by auto

lemma map_of_bumpEntry_self:
  "map_of (bumpEntry t dir h) dir =
     Some (case map_of h dir of
             Some existing \<Rightarrow> existing\<lparr>lastOpened := t, openCount := openCount existing + 1\<rparr>
           | None \<Rightarrow> \<lparr>path = dir, lastOpened = t, openCount = 1, firstOpened = t\<rparr>)"
  by (simp add: bumpEntry_def update_conv' split: option.splits)

lemma map_of_bumpEntry_other: "k \<noteq> dir \<Longrightarrow> map_of (bumpEntry t dir h) k = map_of h k"
  by (simp add: bumpEntry_def update_conv' split: option.splits)

lemma lastOpened_bumpEntry: "map_of (bumpEntry t dir h) dir = Some v \<Longrightarrow> lastOpened v = t"
  by (auto simp: map_of_bumpEntry_self split: option.splits)

lemma set_bumpEntry_other:
  "(k, v) \<in> set (bumpEntry t dir h) \<Longrightarrow> k \<noteq> dir \<Longrightarrow> (k, v) \<in> set h"
  using set_update_subset by (fastforce simp: bumpEntry_def split: option.splits)

text \<open>If the recorded entry is pruned, some entry of another path that stays is at least as recent.\<close>
lemma pruned_recorded_entry:
  assumes wf: "history_wf h"
    and gone: "map_of (pruneHistory (bumpEntry t dir h)) dir = None"
  shows "\<exists>(k, v) \<in> set h. k \<noteq> dir \<and> t \<le> lastOpened v"
proof -
  let ?u = "bumpEntry t dir h"
  have wfu: "history_wf ?u" using wf by (rule history_wf_bumpEntry)
  obtain r where r: "map_of ?u dir = Some r" by (simp add: map_of_bumpEntry_self)
  then have rin: "(dir, r) \<in> set ?u" by (rule map_of_SomeD)
  have rout: "(dir, r) \<notin> set (pruneHistory ?u)"
    using gone by (force simp: map_of_eq_None_iff)
  then have "pruneHistory ?u \<noteq> ?u" using rin by auto
  then have "\<not> length ?u \<le> MAX_HISTORY_ENTRIES" by (auto simp: pruneHistory_def)
  then have "length (pruneHistory ?u) = MAX_HISTORY_ENTRIES"
    using length_pruneHistory[OF wfu] by simp
  then have "pruneHistory ?u \<noteq> []" by (auto simp: MAX_HISTORY_ENTRIES_def)
  then obtain k v where kept: "(k, v) \<in> set (pruneHistory ?u)"
    by (cases "pruneHistory ?u") auto
  have "lastOpened (snd (dir, r)) \<le> lastOpened (snd (k, v))"
    using wfu kept rin rout by (rule pruneHistory_order)
  moreover have "lastOpened r = t" using r by (rule lastOpened_bumpEntry)
  ultimately have le: "t \<le> lastOpened v" by simp
  have kin: "(k, v) \<in> set ?u" using kept set_pruneHistory by blast
  have "k \<noteq> dir"
  proof
    assume "k = dir"
    with kin rin wfu have "v = r" by (auto simp: history_wf_def dest: eq_key_imp_eq_value)
    with \<open>k = dir\<close> kept rout show False by simp
  qed
  with kin have "(k, v) \<in> set h" by (auto dest: set_bumpEntry_other)
  with \<open>k \<noteq> dir\<close> le show ?thesis by blast
qed

section \<open>C8: the bound on the history\<close>

text \<open>Claim C8, as amended. After \<open>recordOpen\<close> on a path that is not a linked worktree
  the history holds at most \<open>MAX_HISTORY_ENTRIES\<close> entries: exactly
  \<open>min n MAX_HISTORY_ENTRIES\<close> of the \<open>n\<close> entries of the updated history stay, and an entry
  that was removed was opened no later than any entry that stays.\<close>

theorem recordOpen_prunes:
  assumes nw: "\<not> isWorktreePath e dir" and wf: "history_wf (workspaceHistory st)"
  shows "(let updated = bumpEntry (now e) dir (workspaceHistory st);
              h' = workspaceHistory (recordOpen e dir st)
          in length h' \<le> MAX_HISTORY_ENTRIES
             \<and> length h' = min (length updated) MAX_HISTORY_ENTRIES
             \<and> set h' \<subseteq> set updated
             \<and> (\<forall>kept \<in> set h'. \<forall>removed \<in> set updated - set h'.
                   lastOpened (snd removed) \<le> lastOpened (snd kept)))"
proof -
  let ?u = "bumpEntry (now e) dir (workspaceHistory st)"
  have wfu: "history_wf ?u" using wf by (rule history_wf_bumpEntry)
  have h': "workspaceHistory (recordOpen e dir st) = pruneHistory ?u"
    using nw by (rule workspaceHistory_recordOpen)
  have "length (pruneHistory ?u) = min (length ?u) MAX_HISTORY_ENTRIES"
    using wfu by (rule length_pruneHistory)
  moreover have "set (pruneHistory ?u) \<subseteq> set ?u" by (rule set_pruneHistory)
  moreover have "\<forall>kept \<in> set (pruneHistory ?u). \<forall>removed \<in> set ?u - set (pruneHistory ?u).
                   lastOpened (snd removed) \<le> lastOpened (snd kept)"
    using pruneHistory_order[OF wfu] by blast
  ultimately show ?thesis unfolding h' Let_def by simp
qed

text \<open>The theorem at a store of a hundred projects and a new folder: one entry goes.\<close>

theorem recordOpen_prunes_witness:
  "\<not> isWorktreePath e0 ''/new'' \<and> history_wf (workspaceHistory (manyProjects 100))
   \<and> length (bumpEntry (now e0) ''/new'' (workspaceHistory (manyProjects 100))) = 101
   \<and> length (workspaceHistory (recordOpen e0 ''/new'' (manyProjects 100))) = 100"
proof -
  have nw: "\<not> isWorktreePath e0 ''/new''" by (simp add: not_worktree_e0)
  have wf: "history_wf (workspaceHistory (manyProjects 100))" by (rule manyProjects_wf)
  have len: "length (bumpEntry (now e0) ''/new'' (workspaceHistory (manyProjects 100))) = 101"
    by (simp add: bumpEntry_def manyProjects_new update_fresh manyProjects_length)
  from recordOpen_prunes[OF nw wf] len
  have "length (workspaceHistory (recordOpen e0 ''/new'' (manyProjects 100))) = 100"
    by (simp add: Let_def MAX_HISTORY_ENTRIES_def)
  with nw wf len show ?thesis by simp
qed

text \<open>Claim C8 as stated fails for a linked worktree: \<open>initializeTimestamp\<close> does not
  prune, so the store can hold 101 entries, and \<open>recordOpen\<close> on \<open>/wt\<close> returns before it
  reads the history.\<close>

theorem recordOpen_bound_counterexample:
  "isWorktreePath e0 ''/wt''
   \<and> \<not> length (workspaceHistory (recordOpen e0 ''/wt'' (manyProjects 101))) \<le> MAX_HISTORY_ENTRIES"
proof -
  have wt: "isWorktreePath e0 ''/wt''"
    by (simp add: isWorktreePath_def e0_def startsWith_def trim_def isWhiteSpace_def)
  then have "recordOpen e0 ''/wt'' (manyProjects 101) = manyProjects 101"
    by (simp add: recordOpen_def)
  with wt show ?thesis by (simp add: manyProjects_length MAX_HISTORY_ENTRIES_def)
qed

section \<open>C5: what recordOpen records\<close>

text \<open>Claim C5, as amended. \<open>recordOpen\<close> on a path that is not a linked worktree bumps
  the entry of the path (\<open>lastOpened\<close> becomes the current time, \<open>openCount\<close> grows by
  one, \<open>firstOpened\<close> and \<open>path\<close> stay) or creates it (\<open>openCount = 1\<close>, both times the
  current time); afterwards every path, the recorded one included, has either that
  entry (its old entry, for another path) or none, when pruning removed it. Nothing is
  pruned when the updated history has at most \<open>MAX_HISTORY_ENTRIES\<close> entries, and the
  recorded entry stays whenever the current time is later than the \<open>lastOpened\<close> of the
  entries of all other paths.\<close>

theorem recordOpen_tracking:
  assumes nw: "\<not> isWorktreePath e dir" and wf: "history_wf (workspaceHistory st)"
  shows "(let h = workspaceHistory st;
              h' = workspaceHistory (recordOpen e dir st);
              recorded =
                (case map_of h dir of
                   Some existing \<Rightarrow>
                     existing\<lparr>lastOpened := now e, openCount := openCount existing + 1\<rparr>
                 | None \<Rightarrow> \<lparr>path = dir, lastOpened = now e, openCount = 1, firstOpened = now e\<rparr>)
          in (map_of h' dir = Some recorded \<or> map_of h' dir = None)
             \<and> (\<forall>k. k \<noteq> dir \<longrightarrow> map_of h' k = map_of h k \<or> map_of h' k = None)
             \<and> (length (AList.update dir recorded h) \<le> MAX_HISTORY_ENTRIES
                  \<longrightarrow> h' = AList.update dir recorded h)
             \<and> ((\<forall>(k, entry) \<in> set h. k \<noteq> dir \<longrightarrow> lastOpened entry < now e)
                  \<longrightarrow> map_of h' dir = Some recorded))"
proof -
  let ?h = "workspaceHistory st"
  let ?u = "bumpEntry (now e) dir ?h"
  let ?r = "case map_of ?h dir of
              Some existing \<Rightarrow> existing\<lparr>lastOpened := now e, openCount := openCount existing + 1\<rparr>
            | None \<Rightarrow> \<lparr>path = dir, lastOpened = now e, openCount = 1, firstOpened = now e\<rparr>"
  have h': "workspaceHistory (recordOpen e dir st) = pruneHistory ?u"
    using nw by (rule workspaceHistory_recordOpen)
  have u: "?u = AList.update dir ?r ?h"
    by (simp add: bumpEntry_def split: option.splits)
  have du: "distinct (map fst ?u)"
    using history_wf_bumpEntry[OF wf] by (simp add: history_wf_def)
  have a: "map_of (pruneHistory ?u) dir = Some ?r \<or> map_of (pruneHistory ?u) dir = None"
    using map_of_pruneHistory[OF du, of dir] by (auto simp: map_of_bumpEntry_self)
  have b: "map_of (pruneHistory ?u) k = map_of ?h k \<or> map_of (pruneHistory ?u) k = None"
    if "k \<noteq> dir" for k
    using map_of_pruneHistory[OF du, of k] that by (auto simp: map_of_bumpEntry_other)
  have c: "pruneHistory ?u = AList.update dir ?r ?h"
    if "length (AList.update dir ?r ?h) \<le> MAX_HISTORY_ENTRIES"
    using that u by (simp add: pruneHistory_def)
  have d: "map_of (pruneHistory ?u) dir = Some ?r"
    if "\<forall>(k, entry) \<in> set ?h. k \<noteq> dir \<longrightarrow> lastOpened entry < now e"
  proof (rule ccontr)
    assume "map_of (pruneHistory ?u) dir \<noteq> Some ?r"
    with a have "map_of (pruneHistory ?u) dir = None" by simp
    from pruned_recorded_entry[OF wf this] that show False by fastforce
  qed
  from a b c d show ?thesis unfolding h' Let_def by blast
qed

text \<open>The theorem at the small store, for the folder \<open>/a\<close> opened three times before.\<close>

theorem recordOpen_tracking_witness:
  "\<not> isWorktreePath e0 ''/a'' \<and> history_wf (workspaceHistory smallState)
   \<and> map_of (workspaceHistory (recordOpen e0 ''/a'' smallState)) ''/a''
       = Some \<lparr>path = ''/a'', lastOpened = 1000, openCount = 4, firstOpened = 10\<rparr>
   \<and> map_of (workspaceHistory (recordOpen e0 ''/a'' smallState)) ''/b''
       = Some \<lparr>path = ''/b'', lastOpened = 700, openCount = 1, firstOpened = 700\<rparr>"
proof -
  have nw: "\<not> isWorktreePath e0 ''/a''" by (simp add: not_worktree_e0)
  have wf: "history_wf (workspaceHistory smallState)"
    by (simp add: smallState_def emptyState_def history_wf_def)
  from recordOpen_tracking[OF nw wf] nw wf show ?thesis
    by (simp add: Let_def smallState_def emptyState_def e0_def MAX_HISTORY_ENTRIES_def)
qed

text \<open>Claim C5 as stated fails when a hundred entries are more recent than the clock:
  the entry created for \<open>/new\<close> is the oldest of 101 and pruning deletes it at once.\<close>

theorem recordOpen_tracking_counterexample:
  "\<not> isWorktreePath e0 ''/new''
   \<and> history_wf (workspaceHistory (manyProjects 100))
   \<and> map_of (workspaceHistory (manyProjects 100)) ''/new'' = None
   \<and> map_of (workspaceHistory (recordOpen e0 ''/new'' (manyProjects 100))) ''/new'' = None"
proof -
  let ?h = "workspaceHistory (manyProjects 100)"
  let ?u = "bumpEntry (now e0) ''/new'' ?h"
  have nw: "\<not> isWorktreePath e0 ''/new''" by (simp add: not_worktree_e0)
  have wf: "history_wf ?h" by (rule manyProjects_wf)
  have wfu: "history_wf ?u" using wf by (rule history_wf_bumpEntry)
  have len: "length ?u = 101"
    by (simp add: bumpEntry_def manyProjects_new update_fresh manyProjects_length)
  have lenp: "length (pruneHistory ?u) = 100"
    using length_pruneHistory[OF wfu] len by (simp add: MAX_HISTORY_ENTRIES_def)
  have "map_of (pruneHistory ?u) ''/new'' = None"
  proof (rule ccontr)
    assume "map_of (pruneHistory ?u) ''/new'' \<noteq> None"
    then obtain r where "map_of (pruneHistory ?u) ''/new'' = Some r" by auto
    then have kept: "(''/new'', r) \<in> set (pruneHistory ?u)" by (rule map_of_SomeD)
    then have "(''/new'', r) \<in> set ?u" using set_pruneHistory by blast
    moreover have "distinct (map fst ?u)" using wfu by (simp add: history_wf_def)
    ultimately have "map_of ?u ''/new'' = Some r" by simp
    then have r: "lastOpened r = now e0" by (rule lastOpened_bumpEntry)
    have "distinct ?u" "distinct (pruneHistory ?u)"
      using wfu history_wf_pruneHistory[OF wfu] by (auto simp: history_wf_def distinct_map)
    then have "card (set ?u) = 101" "card (set (pruneHistory ?u)) = 100"
      using len lenp by (simp_all add: distinct_card)
    then have "\<not> set ?u \<subseteq> set (pruneHistory ?u)"
      using card_mono[of "set (pruneHistory ?u)" "set ?u"] by auto
    then obtain k v where rem: "(k, v) \<in> set ?u" "(k, v) \<notin> set (pruneHistory ?u)" by auto
    with kept have "k \<noteq> ''/new'' \<or> v \<noteq> r" by auto
    with rem \<open>(''/new'', r) \<in> set ?u\<close> \<open>distinct (map fst ?u)\<close> have "k \<noteq> ''/new''"
      by (auto dest: eq_key_imp_eq_value)
    with rem have "(k, v) \<in> set ?h" by (auto dest: set_bumpEntry_other)
    then have "lastOpened v = 2000" by (rule manyProjects_lastOpened)
    moreover have "lastOpened (snd (k, v)) \<le> lastOpened (snd (''/new'', r))"
      using wfu kept rem by (rule pruneHistory_order)
    ultimately show False using r by (simp add: e0_def)
  qed
  with nw wf show ?thesis
    by (simp add: workspaceHistory_recordOpen manyProjects_new)
qed

section \<open>Properties of the suggestion service\<close>

lemma length_filter_eq_iff: "length (filter P xs) = length xs \<longleftrightarrow> (\<forall>x \<in> set xs. P x)"
proof
  assume "length (filter P xs) = length xs"
  then show "\<forall>x \<in> set xs. P x"
    using length_filter_less[of _ xs P] by fastforce
next
  assume "\<forall>x \<in> set xs. P x"
  then show "length (filter P xs) = length xs" by simp
qed

lemma postponed_cleanup:
  "postponedSuggestions (cleanupExpiredPostponements e st)
     = filter (\<lambda>p. \<not> isPostponeExpired e p) (postponedSuggestions st)"
proof (cases "\<forall>p \<in> set (postponedSuggestions st). \<not> isPostponeExpired e p")
  case True
  then show ?thesis
    by (simp add: cleanupExpiredPostponements_def getPostponedSuggestions_def Let_def)
next
  case False
  then have "length (filter (\<lambda>p. \<not> isPostponeExpired e p) (postponedSuggestions st))
             \<noteq> length (postponedSuggestions st)"
    by (simp add: length_filter_eq_iff)
  then show ?thesis
    by (simp add: cleanupExpiredPostponements_def getPostponedSuggestions_def Let_def
        updatePostponed_def)
qed

lemma cleanup_other_fields:
  "workspaceHistory (cleanupExpiredPostponements e st) = workspaceHistory st
   \<and> ignoredSuggestionPaths (cleanupExpiredPostponements e st) = ignoredSuggestionPaths st
   \<and> savedProjects (cleanupExpiredPostponements e st) = savedProjects st
   \<and> projectMetadata (cleanupExpiredPostponements e st) = projectMetadata st
   \<and> excludedPaths (cleanupExpiredPostponements e st) = excludedPaths st"
  by (simp add: cleanupExpiredPostponements_def Let_def updatePostponed_def)

lemma suggestible_iff:
  "enabled config \<Longrightarrow>
   (minOpenCount config \<le> openCount entry \<and>
    suggestible e (now e - timePeriodDays config * 24 * 60 * 60 * 1000)
      (set (map savedPath (getSavedProjects e (cleanupExpiredPostponements e st))))
      (set (getIgnoredPaths (cleanupExpiredPostponements e st)))
      (set (map postponedPath
             (filter (\<lambda>s. \<not> isPostponeExpired e s)
                (getPostponedSuggestions (cleanupExpiredPostponements e st))))) entry)
   \<longleftrightarrow> eligible e config st entry"
proof -
  assume en: "enabled config"
  let ?st1 = "cleanupExpiredPostponements e st"
  have saved: "path entry \<in> set (map savedPath (getSavedProjects e ?st1))
               \<longleftrightarrow> path entry \<in> savedPath ` set (savedProjects st) \<and> existsSync e (path entry)"
    by (auto simp: getSavedProjects_def cleanup_other_fields)
  have ign: "set (getIgnoredPaths ?st1) = set (ignoredSuggestionPaths st)"
    by (simp add: getIgnoredPaths_def cleanup_other_fields)
  have post: "path entry \<in> set (map postponedPath
                 (filter (\<lambda>s. \<not> isPostponeExpired e s) (getPostponedSuggestions ?st1)))
              \<longleftrightarrow> (\<exists>s \<in> set (postponedSuggestions st).
                     postponedPath s = path entry \<and> \<not> isPostponeExpired e s)"
    by (force simp: getPostponedSuggestions_def postponed_cleanup image_iff)
  show ?thesis
    unfolding suggestible_def eligible_def saved ign post using en by auto
qed

lemma getSuggestibleFolders_filter:
  "fst (getSuggestibleFolders e config st) = filter (eligible e config st) (getHistorySorted st)"
proof (cases "enabled config")
  case False
  then show ?thesis by (simp add: getSuggestibleFolders_def eligible_def)
next
  case True
  have hs: "getHistorySorted (cleanupExpiredPostponements e st) = getHistorySorted st"
    by (simp add: getHistorySorted_def getHistory_def cleanup_other_fields)
  show ?thesis
    using True suggestible_iff[OF True, of _ e st]
    by (simp add: getSuggestibleFolders_def Let_def getFrequentFolders_def hs cong: filter_cong)
qed

lemma cleanup_noop:
  "(\<forall>p \<in> set (postponedSuggestions st). \<not> isPostponeExpired e p)
   \<Longrightarrow> cleanupExpiredPostponements e st = st"
  by (simp add: cleanupExpiredPostponements_def getPostponedSuggestions_def Let_def)

lemma cleanup_updates:
  "updates (cleanupExpiredPostponements e st) =
     (if \<exists>p \<in> set (postponedSuggestions st). isPostponeExpired e p
      then updates st @ [POSTPONED_SUGGESTIONS_KEY] else updates st)"
  by (simp add: cleanupExpiredPostponements_def getPostponedSuggestions_def Let_def
      updatePostponed_def length_filter_eq_iff)

section \<open>C1: the folders suggested\<close>

text \<open>Claim C1. For every configuration and store, \<open>getSuggestibleFolders\<close> returns the
  history entries, most recently opened first, that are eligible in the sense of the
  specification, and exactly those; with suggestions disabled it returns the empty
  list and leaves the store alone.\<close>

theorem getSuggestibleFolders_exact:
  "fst (getSuggestibleFolders e config st) = filter (eligible e config st) (getHistorySorted st)
   \<and> set (fst (getSuggestibleFolders e config st))
       = {entry \<in> snd ` set (workspaceHistory st). eligible e config st entry}
   \<and> (\<not> enabled config \<longrightarrow> getSuggestibleFolders e config st = ([], st))"
proof -
  have "set (getHistorySorted st) = snd ` set (workspaceHistory st)"
    by (simp add: getHistorySorted_def getHistory_def)
  then have "set (filter (eligible e config st) (getHistorySorted st))
             = {entry \<in> snd ` set (workspaceHistory st). eligible e config st entry}"
    by auto
  moreover have "\<not> enabled config \<longrightarrow> getSuggestibleFolders e config st = ([], st)"
    by (simp add: getSuggestibleFolders_def)
  ultimately show ?thesis by (simp add: getSuggestibleFolders_filter)
qed

text \<open>The theorem at the store of nine folders: two are eligible.\<close>

theorem getSuggestibleFolders_exact_witness:
  "fst (getSuggestibleFolders e1 config0 suggestionState)
     = [\<lparr>path = ''/good'', lastOpened = 99 * day, openCount = 5, firstOpened = 0\<rparr>,
        \<lparr>path = ''/again'', lastOpened = 98 * day, openCount = 9, firstOpened = 0\<rparr>]
   \<and> getSuggestibleFolders e1 (config0\<lparr>enabled := False\<rparr>) suggestionState = ([], suggestionState)"
  using getSuggestibleFolders_exact[of e1 config0 suggestionState]
    getSuggestibleFolders_exact[of e1 "config0\<lparr>enabled := False\<rparr>" suggestionState]
  by (simp add: eligible_def getHistorySorted_def getHistory_def sortByLastOpenedDesc_def
      suggestionState_def emptyState_def e1_def e0_def config0_def day_def isWorktreePath_def
      isPostponeExpired_def POSTPONE_DURATION_DAYS_def startsWith_def trim_def isWhiteSpace_def)

section \<open>C6: postponement and expiry\<close>

text \<open>Claim C6. A postponement is expired exactly when the clock is strictly past
  \<open>postponedAt\<close> plus seven days of milliseconds. \<open>cleanupExpiredPostponements\<close> keeps the
  unexpired postponements, in order, and drops exactly the expired ones; when none is
  expired it returns the store untouched, and it issues one update of the postponed list
  otherwise. A folder under an unexpired postponement is never suggested, and expired
  postponements have no effect on the suggestions.\<close>

theorem postponement_expiry:
  "(isPostponeExpired e s \<longleftrightarrow> now e > postponedAt s + 7 * 24 * 60 * 60 * 1000)
   \<and> postponedSuggestions (cleanupExpiredPostponements e st)
       = filter (\<lambda>p. \<not> isPostponeExpired e p) (postponedSuggestions st)
   \<and> set (postponedSuggestions (cleanupExpiredPostponements e st))
       = set (postponedSuggestions st) - {p. isPostponeExpired e p}
   \<and> ((\<forall>p \<in> set (postponedSuggestions st). \<not> isPostponeExpired e p)
        \<longrightarrow> cleanupExpiredPostponements e st = st)
   \<and> updates (cleanupExpiredPostponements e st)
       = (if \<exists>p \<in> set (postponedSuggestions st). isPostponeExpired e p
          then updates st @ [POSTPONED_SUGGESTIONS_KEY] else updates st)
   \<and> (\<forall>p \<in> set (postponedSuggestions st). \<not> isPostponeExpired e p \<longrightarrow>
         (\<forall>entry \<in> set (fst (getSuggestibleFolders e config st)). path entry \<noteq> postponedPath p))
   \<and> ((\<forall>p \<in> set (postponedSuggestions st). isPostponeExpired e p) \<longrightarrow>
         fst (getSuggestibleFolders e config st)
           = fst (getSuggestibleFolders e config (st\<lparr>postponedSuggestions := []\<rparr>)))"
proof -
  have a: "isPostponeExpired e s \<longleftrightarrow> now e > postponedAt s + 7 * 24 * 60 * 60 * 1000"
    by (simp add: isPostponeExpired_def POSTPONE_DURATION_DAYS_def)
  have b: "set (postponedSuggestions (cleanupExpiredPostponements e st))
           = set (postponedSuggestions st) - {p. isPostponeExpired e p}"
    by (auto simp: postponed_cleanup)
  have c: "\<forall>p \<in> set (postponedSuggestions st). \<not> isPostponeExpired e p \<longrightarrow>
         (\<forall>entry \<in> set (fst (getSuggestibleFolders e config st)). path entry \<noteq> postponedPath p)"
    by (auto simp: getSuggestibleFolders_filter eligible_def)
  have d: "(\<forall>p \<in> set (postponedSuggestions st). \<not> isPostponeExpired e p)
        \<longrightarrow> cleanupExpiredPostponements e st = st"
    by (simp add: cleanup_noop)
  have f: "postponedSuggestions (cleanupExpiredPostponements e st)
       = filter (\<lambda>p. \<not> isPostponeExpired e p) (postponedSuggestions st)"
    by (rule postponed_cleanup)
  have g: "updates (cleanupExpiredPostponements e st)
       = (if \<exists>p \<in> set (postponedSuggestions st). isPostponeExpired e p
          then updates st @ [POSTPONED_SUGGESTIONS_KEY] else updates st)"
    by (rule cleanup_updates)
  have h: "fst (getSuggestibleFolders e config st)
           = fst (getSuggestibleFolders e config (st\<lparr>postponedSuggestions := []\<rparr>))"
    if "\<forall>p \<in> set (postponedSuggestions st). isPostponeExpired e p"
  proof -
    have "eligible e config st = eligible e config (st\<lparr>postponedSuggestions := []\<rparr>)"
      using that by (auto simp: eligible_def fun_eq_iff)
    then show ?thesis
      by (simp add: getSuggestibleFolders_filter getHistorySorted_def getHistory_def)
  qed
  from a f b d g c h show ?thesis by blast
qed

text \<open>The theorem at the two postponements of the concrete store.\<close>

theorem postponement_expiry_witness:
  "isPostponeExpired e1 \<lparr>postponedPath = ''/again'', postponedAt = 93 * day - 1\<rparr>
   \<and> \<not> isPostponeExpired e1 \<lparr>postponedPath = ''/later'', postponedAt = 93 * day\<rparr>
   \<and> postponedSuggestions (cleanupExpiredPostponements e1 suggestionState)
       = [\<lparr>postponedPath = ''/later'', postponedAt = 93 * day\<rparr>]
   \<and> updates (cleanupExpiredPostponements e1 suggestionState) = [POSTPONED_SUGGESTIONS_KEY]
   \<and> cleanupExpiredPostponements e1 (cleanupExpiredPostponements e1 suggestionState)
       = cleanupExpiredPostponements e1 suggestionState"
proof -
  let ?again = "\<lparr>postponedPath = ''/again'', postponedAt = 93 * day - 1\<rparr>"
  let ?later = "\<lparr>postponedPath = ''/later'', postponedAt = 93 * day\<rparr>"
  have x: "isPostponeExpired e1 ?again" "\<not> isPostponeExpired e1 ?later"
    using postponement_expiry[of e1 ?again suggestionState config0]
      postponement_expiry[of e1 ?later suggestionState config0]
    by (simp_all add: e1_def e0_def day_def)
  have ps: "postponedSuggestions suggestionState = [?later, ?again]"
    by (simp add: suggestionState_def emptyState_def)
  have u: "updates suggestionState = []"
    by (simp add: suggestionState_def emptyState_def)
  have y: "postponedSuggestions (cleanupExpiredPostponements e1 suggestionState) = [?later]"
    "updates (cleanupExpiredPostponements e1 suggestionState) = [POSTPONED_SUGGESTIONS_KEY]"
    using postponement_expiry[of e1 ?later suggestionState config0] x
    by (simp_all add: ps u)
  have "cleanupExpiredPostponements e1 (cleanupExpiredPostponements e1 suggestionState)
       = cleanupExpiredPostponements e1 suggestionState"
    using postponement_expiry[of e1 ?later "cleanupExpiredPostponements e1 suggestionState" config0] x
    by (simp add: y)
  with x y show ?thesis by simp
qed

section \<open>C7: project metadata\<close>

lemma getTags_saveAll:
  "getTags dir (saveAll data st) = (case map_of data dir of Some meta \<Rightarrow> tagIds meta | None \<Rightarrow> [])"
  by (simp add: getTags_def getMetadata_def getAll_def saveAll_def split: option.splits)

lemma getTags_setTags_same:
  "getTags dir (setTags dir ts st) = ts"
  by (cases ts) (simp_all add: setTags_def getTags_saveAll Let_def update_conv' delete_conv')

lemma setTags_empty_deletes:
  "dir \<notin> fst ` set (projectMetadata (setTags dir [] st))"
  by (simp add: setTags_def saveAll_def Let_def delete_notin_dom)

text \<open>Claim C7. After \<open>addTag\<close> the tag is among the tags of the path; \<open>addTag\<close> of a tag
  already present returns the store untouched, so a second \<open>addTag\<close> changes nothing;
  \<open>setTags\<close> with the empty list, and \<open>removeTag\<close> of the only tag of a path, delete the
  entry of the path, after which \<open>getTags\<close> is empty.\<close>

theorem metadata_tag_set:
  "tagId \<in> set (getTags dir (addTag dir tagId st))
   \<and> (tagId \<in> set (getTags dir st) \<longrightarrow> addTag dir tagId st = st)
   \<and> addTag dir tagId (addTag dir tagId st) = addTag dir tagId st
   \<and> dir \<notin> fst ` set (projectMetadata (setTags dir [] st))
   \<and> getTags dir (setTags dir [] st) = []
   \<and> (set (getTags dir st) = {tagId} \<longrightarrow>
        dir \<notin> fst ` set (projectMetadata (removeTag dir tagId st))
        \<and> getTags dir (removeTag dir tagId st) = [])"
proof -
  have a: "tagId \<in> set (getTags dir (addTag dir tagId st))"
    by (simp add: addTag_def Let_def getTags_setTags_same)
  have b: "addTag dir tagId s = s" if "tagId \<in> set (getTags dir s)" for s
    using that by (simp add: addTag_def)
  have c: "addTag dir tagId (addTag dir tagId st) = addTag dir tagId st"
    using a by (rule b)
  have d: "removeTag dir tagId st = setTags dir [] st" if "set (getTags dir st) = {tagId}"
  proof -
    have "filter (\<lambda>id. id \<noteq> tagId) (getTags dir st) = []"
      using that by (auto simp: filter_empty_conv)
    then show ?thesis by (simp add: removeTag_def)
  qed
  from a b[of st] c d show ?thesis
    by (simp add: setTags_empty_deletes getTags_setTags_same)
qed

text \<open>The theorem at the store with tags on \<open>/a\<close> and \<open>/b\<close>.\<close>

theorem metadata_tag_set_witness:
  "getTags ''/b'' (addTag ''/b'' ''rust'' tagState) = [''web'', ''rust'']
   \<and> addTag ''/a'' ''rust'' tagState = tagState
   \<and> set (getTags ''/b'' tagState) = {''web''}
   \<and> projectMetadata (removeTag ''/b'' ''web'' tagState) = [(''/a'', \<lparr>tagIds = [''web'', ''rust'']\<rparr>)]
   \<and> getTags ''/b'' (removeTag ''/b'' ''web'' tagState) = []"
proof -
  have t: "getTags ''/a'' tagState = [''web'', ''rust'']" "getTags ''/b'' tagState = [''web'']"
    by (simp_all add: tagState_def emptyState_def getTags_def getMetadata_def getAll_def)
  have "addTag ''/a'' ''rust'' tagState = tagState"
    using metadata_tag_set[of "''rust''" "''/a''" tagState] t by simp
  moreover have "getTags ''/b'' (removeTag ''/b'' ''web'' tagState) = []"
    using metadata_tag_set[of "''web''" "''/b''" tagState] t by simp
  moreover have "getTags ''/b'' (addTag ''/b'' ''rust'' tagState) = [''web'', ''rust'']"
    by (simp add: addTag_def t Let_def getTags_setTags_same)
  moreover have "projectMetadata (removeTag ''/b'' ''web'' tagState) = [(''/a'', \<lparr>tagIds = [''web'', ''rust'']\<rparr>)]"
  proof -
    have "removeTag ''/b'' ''web'' tagState = setTags ''/b'' [] tagState"
      by (simp add: removeTag_def t)
    then show ?thesis
      by (simp add: setTags_def saveAll_def getAll_def tagState_def emptyState_def AList.delete_eq)
  qed
  ultimately show ?thesis using t by simp
qed

section \<open>Properties of the recent folders\<close>

lemma recentFoldersLoop_conv:
  "recentFoldersLoop e (map projectPath ps) (map projectName ps) es =
     (map (toRecentFolder e) (filter (keptRecent e ps) es),
      map path (filter (\<lambda>entry. \<not> existsSync e (path entry)) es))"
  by (induction es) (auto simp: keptRecent_def)

lemma foldl_removeFromHistory:
  "workspaceHistory (foldl (\<lambda>s p. removeFromHistory p s) st ps)
     = filter (\<lambda>(k, v). k \<notin> set ps) (workspaceHistory st)"
proof (induction ps arbitrary: st)
  case Nil
  then show ?case by simp
next
  case (Cons p ps)
  have "filter (\<lambda>(k, v). k \<notin> set ps) (AList.delete p h)
        = filter (\<lambda>(k, v). k \<notin> set (p # ps)) h" for h :: "WorkspaceHistoryEntry js_record"
    by (induction h) (auto simp: AList.delete_eq)
  with Cons show ?case
    by (simp add: removeFromHistory_def updateHistory_def getHistory_def)
qed

lemma getRecentFolders_conv:
  "getRecentFolders e ps st =
     (map (toRecentFolder e) (filter (keptRecent e ps) (getHistorySorted st)),
      foldl (\<lambda>s p. removeFromHistory p s) st
        (map path (filter (\<lambda>entry. \<not> existsSync e (path entry)) (getHistorySorted st))))"
  by (simp add: getRecentFolders_def recentFoldersLoop_conv Let_def)

lemma sorted_desc_getHistorySorted:
  "sorted (map (\<lambda>entry. - lastOpened entry) (getHistorySorted st))"
  by (simp add: getHistorySorted_def sortByLastOpenedDesc_def)

lemma getRecentFolders_properties:
  assumes wf: "history_wf (workspaceHistory st)"
  shows "sorted (map (\<lambda>f. - folderLastOpened f) (fst (getRecentFolders e ps st)))"
    and "folderPath ` set (fst (getRecentFolders e ps st))
           = {path entry | entry. entry \<in> snd ` set (workspaceHistory st) \<and> keptRecent e ps entry}"
    and "workspaceHistory (snd (getRecentFolders e ps st))
           = filter (\<lambda>(k, entry). existsSync e k) (workspaceHistory st)"
proof -
  let ?s = "getHistorySorted st"
  have "map (\<lambda>f. - folderLastOpened f) (fst (getRecentFolders e ps st))
        = filter (\<lambda>x. True) (map (\<lambda>entry. - lastOpened entry) (filter (keptRecent e ps) ?s))"
    by (simp add: getRecentFolders_conv toRecentFolder_def o_def)
  moreover have "sorted (map (\<lambda>entry. - lastOpened entry) (filter (keptRecent e ps) ?s))"
    using sorted_desc_getHistorySorted[of st] by (rule sorted_filter)
  ultimately show "sorted (map (\<lambda>f. - folderLastOpened f) (fst (getRecentFolders e ps st)))"
    by simp
  have set_s: "set ?s = snd ` set (workspaceHistory st)"
    by (simp add: getHistorySorted_def getHistory_def)
  show "folderPath ` set (fst (getRecentFolders e ps st))
           = {path entry | entry. entry \<in> snd ` set (workspaceHistory st) \<and> keptRecent e ps entry}"
  proof -
    have "folderPath ` set (fst (getRecentFolders e ps st))
          = path ` {entry \<in> set ?s. keptRecent e ps entry}"
      by (simp add: getRecentFolders_conv toRecentFolder_def image_image)
    also have "\<dots> = {path entry | entry. entry \<in> snd ` set (workspaceHistory st) \<and> keptRecent e ps entry}"
      unfolding set_s by blast
    finally show ?thesis .
  qed
  have "(k \<notin> set (map path (filter (\<lambda>entry. \<not> existsSync e (path entry)) ?s))) = existsSync e k"
    if "(k, v) \<in> set (workspaceHistory st)" for k v
  proof -
    have kv: "path v = k" using wf that by (auto simp: history_wf_def list_all_iff)
    have "v \<in> set ?s" using that unfolding set_s by force
    then show ?thesis
    proof (cases "existsSync e k")
      case True
      have "path x \<noteq> k" if "x \<in> set ?s" "\<not> existsSync e (path x)" for x
        using that True by auto
      with True show ?thesis by auto
    next
      case False
      with kv \<open>v \<in> set ?s\<close> show ?thesis by force
    qed
  qed
  then have "filter (\<lambda>(k, v). k \<notin> set (map path (filter (\<lambda>entry. \<not> existsSync e (path entry)) ?s)))
               (workspaceHistory st)
             = filter (\<lambda>(k, entry). existsSync e k) (workspaceHistory st)"
    by (intro filter_cong) auto
  then show "workspaceHistory (snd (getRecentFolders e ps st))
           = filter (\<lambda>(k, entry). existsSync e k) (workspaceHistory st)"
    by (simp add: getRecentFolders_conv foldl_removeFromHistory)
qed

lemma startsWith_length: "startsWith s p \<Longrightarrow> length p \<le> length s"
proof -
  assume "startsWith s p"
  then have "length (take (length p) s) = length p" by (simp add: startsWith_def)
  then show ?thesis by simp
qed

lemma startsWith_append: "startsWith s p \<Longrightarrow> startsWith (s @ r) p"
  using startsWith_length[of s p] by (simp add: startsWith_def)

lemma str_includes_Nil [simp]: "str_includes s []"
  by (cases s) (simp_all add: startsWith_def)

lemma str_split_nonempty: "str_split s d \<noteq> []"
  by (induction s) (auto split: list.splits)

text \<open>The first component of a split is a prefix of the string.\<close>
lemma str_split_hd: "str_split s d = w # ws \<Longrightarrow> \<exists>r. s = w @ r"
proof (induction s arbitrary: w ws)
  case Nil
  then show ?case by simp
next
  case (Cons c s)
  show ?case
  proof (cases "c = d")
    case True
    with Cons.prems show ?thesis by auto
  next
    case False
    obtain v vs where sp: "str_split s d = v # vs"
      using str_split_nonempty[of s d] by (cases "str_split s d") auto
    with Cons.IH obtain r where "s = v @ r" by blast
    with False sp Cons.prems show ?thesis by auto
  qed
qed

text \<open>What occurs in a component occurs in the string.\<close>
lemma str_includes_split:
  "part \<in> set (str_split s d) \<Longrightarrow> str_includes part p \<Longrightarrow> str_includes s p"
proof (induction s arbitrary: part)
  case Nil
  then show ?case by simp
next
  case (Cons c s)
  show ?case
  proof (cases "c = d")
    case True
    with Cons.prems have "part = [] \<or> part \<in> set (str_split s d)" by auto
    then show ?thesis
    proof
      assume "part = []"
      with Cons.prems(2) have "p = []" by simp
      then show ?thesis by simp
    next
      assume "part \<in> set (str_split s d)"
      with Cons show ?thesis by auto
    qed
  next
    case False
    obtain v vs where sp: "str_split s d = v # vs"
      using str_split_nonempty[of s d] by (cases "str_split s d") auto
    with False Cons.prems(1) have "part = c # v \<or> part \<in> set vs" by auto
    then show ?thesis
    proof
      assume part: "part = c # v"
      from sp obtain r where r: "s = v @ r" using str_split_hd by blast
      from Cons.prems(2) part have "startsWith (c # v) p \<or> str_includes v p" by simp
      then show ?thesis
      proof
        assume "startsWith (c # v) p"
        then have "startsWith ((c # v) @ r) p" by (rule startsWith_append)
        with r show ?thesis by simp
      next
        assume "str_includes v p"
        moreover have "v \<in> set (str_split s d)" using sp by simp
        ultimately have "str_includes s p" by (rule Cons.IH[rotated])
        then show ?thesis by simp
      qed
    next
      assume "part \<in> set vs"
      with sp have "part \<in> set (str_split s d)" by simp
      with Cons show ?thesis by auto
    qed
  qed
qed

text \<open>A pattern whose first character does not occur in it again cannot begin inside a
  name and end in the pattern appended to the name.\<close>
lemma startsWith_own_suffix:
  assumes sw: "startsWith (n @ w) w" and n: "n \<noteq> []" and w: "w \<noteq> []" "hd w \<notin> set (tl w)"
  shows "startsWith n w"
proof (cases "length n < length w")
  case False
  then have "take (length w) (n @ w) = take (length w) n" by simp
  with sw show ?thesis unfolding startsWith_def by simp
next
  case True
  from sw have eq: "take (length w) (n @ w) = w" unfolding startsWith_def .
  from True have "(take (length w) (n @ w)) ! length n = (n @ w) ! length n"
    by (simp only: nth_take)
  also have "\<dots> = hd w" using w(1) by (simp add: nth_append hd_conv_nth)
  finally have dot: "w ! length n = hd w" unfolding eq .
  obtain k where k: "length n = Suc k" using n by (cases n) auto
  with True have "k < length (tl w)" by simp
  then have "tl w ! k \<in> set (tl w)" by (rule nth_mem)
  moreover have "tl w ! k = w ! Suc k" using w(1) by (cases w) simp_all
  ultimately show ?thesis using dot k w(2) by simp
qed

lemma startsWith_worktrees_suffix:
  assumes "startsWith (n @ ''.worktrees'') ''.worktrees''" "n \<noteq> []"
  shows "startsWith n ''.worktrees''"
  using assms by (rule startsWith_own_suffix) simp_all

lemma str_replace_suffix:
  "\<not> str_includes n ''.worktrees'' \<Longrightarrow> str_replace (n @ ''.worktrees'') ''.worktrees'' [] = n"
proof (induction n)
  case Nil
  then show ?case by (simp add: startsWith_def)
next
  case (Cons c n)
  from Cons.prems have a: "\<not> startsWith (c # n) ''.worktrees''" and b: "\<not> str_includes n ''.worktrees''"
    by simp_all
  from a have "\<not> startsWith ((c # n) @ ''.worktrees'') ''.worktrees''"
    using startsWith_worktrees_suffix[of "c # n"] by blast
  with Cons.IH[OF b] show ?case by simp
qed

lemma endsWith_append: "endsWith (n @ p) p"
  by (simp add: endsWith_def)

lemma str_includes_suffix: "str_includes (n @ p) p"
  by (induction n) (simp_all add: startsWith_def, (cases p; simp add: startsWith_def))

text \<open>A folder having a component \<open><name>.worktrees\<close> for a project name without
  \<open>.worktrees\<close> in it is recognised as a folder of that project's worktrees.\<close>
lemma isWorktreeOfProject_component:
  assumes "name \<in> set names" "\<not> str_includes name ''.worktrees''"
    and "name @ ''.worktrees'' \<in> set (str_split dir (path_sep e))"
  shows "isWorktreeOfProject e names dir"
proof -
  have "str_includes dir ''.worktrees''"
    using assms(3) str_includes_suffix by (rule str_includes_split)
  moreover have "endsWith (name @ ''.worktrees'') ''.worktrees''" by (rule endsWith_append)
  moreover have "str_replace (name @ ''.worktrees'') ''.worktrees'' [] \<in> set names"
    using assms(1,2) by (simp add: str_replace_suffix)
  ultimately show ?thesis
    unfolding isWorktreeOfProject_def list_ex_iff using assms(3) by blast
qed

text \<open>Every recent folder exists, is neither a project nor inside one, and has no
  component \<open><name>.worktrees\<close> for a project name that is free of \<open>.worktrees\<close>.\<close>
lemma getRecentFolders_omits:
  assumes "f \<in> set (fst (getRecentFolders e ps st))"
  shows "existsSync e (folderPath f)"
    and "folderPath f \<notin> projectPath ` set ps"
    and "\<forall>p \<in> set ps. \<not> startsWith (folderPath f) (projectPath p @ [path_sep e])"
    and "\<forall>p \<in> set ps. \<not> str_includes (projectName p) ''.worktrees'' \<longrightarrow>
           projectName p @ ''.worktrees'' \<notin> set (str_split (folderPath f) (path_sep e))"
proof -
  from assms obtain entry where entry: "keptRecent e ps entry" "folderPath f = path entry"
    by (auto simp: getRecentFolders_conv toRecentFolder_def)
  then show "existsSync e (folderPath f)" "folderPath f \<notin> projectPath ` set ps"
    by (simp_all add: keptRecent_def)
  from entry show "\<forall>p \<in> set ps. \<not> startsWith (folderPath f) (projectPath p @ [path_sep e])"
    by (auto simp: keptRecent_def isSubfolderOfProject_def list_ex_iff)
  from entry have nw: "\<not> isWorktreeOfProject e (map projectName ps) (folderPath f)"
    by (simp add: keptRecent_def)
  show "\<forall>p \<in> set ps. \<not> str_includes (projectName p) ''.worktrees'' \<longrightarrow>
           projectName p @ ''.worktrees'' \<notin> set (str_split (folderPath f) (path_sep e))"
  proof (intro ballI impI notI)
    fix p
    assume "p \<in> set ps" "\<not> str_includes (projectName p) ''.worktrees''"
      "projectName p @ ''.worktrees'' \<in> set (str_split (folderPath f) (path_sep e))"
    then have "isWorktreeOfProject e (map projectName ps) (folderPath f)"
      by (intro isWorktreeOfProject_component[of "projectName p"]) simp_all
    with nw show False by contradiction
  qed
qed

text \<open>The methods that write the history keep it keyed by the entries' paths.\<close>
lemma history_wf_preserved:
  assumes "history_wf (workspaceHistory st)"
  shows "history_wf (workspaceHistory (recordOpen e dir st))"
    and "history_wf (workspaceHistory (removeFromHistory dir st))"
    and "history_wf (workspaceHistory (snd (initializeTimestamp dir t st)))"
    and "history_wf (workspaceHistory (snd (getRecentFolders e ps st)))"
proof -
  show "history_wf (workspaceHistory (recordOpen e dir st))"
    using assms
    by (simp add: recordOpen_def updateHistory_def getHistory_def history_wf_bumpEntry
        history_wf_pruneHistory)
  show "history_wf (workspaceHistory (removeFromHistory dir st))"
    using history_wf_filter[OF assms]
    by (simp add: removeFromHistory_def updateHistory_def getHistory_def AList.delete_eq)
  show "history_wf (workspaceHistory (snd (initializeTimestamp dir t st)))"
    using assms
    by (simp add: initializeTimestamp_def updateHistory_def getHistory_def history_wf_update
        split: option.splits)
  show "history_wf (workspaceHistory (snd (getRecentFolders e ps st)))"
    using history_wf_filter[OF assms]
    by (simp add: getRecentFolders_conv foldl_removeFromHistory)
qed

section \<open>C10: the recent folders\<close>

text \<open>Claim C10, at a failing input. With the projects \<open>app\<close> and \<open>a.worktreesb\<close> known,
  the folder under \<open>app.worktrees\<close> is omitted, and so are the folder that is gone (its
  entry leaves the history) and the subfolder of \<open>/r/app\<close>; the folder under
  \<open>a.worktreesb.worktrees\<close> is returned, because \<open>replace\<close> removes the first
  \<open>.worktrees\<close> of the component and leaves \<open>ab.worktrees\<close>, which is no project's
  name.\<close>

theorem getRecentFolders_worktrees_dir:
  "map folderPath (fst (getRecentFolders e0 recentProjects recentState))
     = [''/tmp/x'', ''/r/a.worktreesb.worktrees/feat'']
   \<and> str_replace ''a.worktreesb.worktrees'' ''.worktrees'' [] = ''ab.worktrees''
   \<and> map fst (workspaceHistory (snd (getRecentFolders e0 recentProjects recentState)))
     = [''/r/app.worktrees/feat'', ''/r/a.worktreesb.worktrees/feat'', ''/r/app/src'', ''/tmp/x'']"
  by (simp add: getRecentFolders_def getHistorySorted_def getHistory_def sortByLastOpenedDesc_def
      recentState_def recentProjects_def emptyState_def e0_def toRecentFolder_def
      isSubfolderOfProject_def isWorktreeOfProject_def startsWith_def endsWith_def
      removeFromHistory_def updateHistory_def AList.delete_eq)

section \<open>Properties of the by-tags view\<close>

lemma set_insort_cmp: "set (insort_cmp cmp x xs) = insert x (set xs)"
  by (induction xs) auto

lemma set_sort_cmp: "set (sort_cmp cmp xs) = set xs"
  by (induction xs) (auto simp: sort_cmp_def set_insort_cmp)

lemma set_getTagsByPriority:
  "set (getTagsByPriority e cfg p) = {t \<in> set (getTags_TagService cfg). priority t = p}"
  by (auto simp: getTagsByPriority_def set_sort_cmp)

lemma set_sortProjects: "set (sortProjects e st ps order direction) = set ps"
  by (cases order)
     (auto simp: sortProjects_def sortProjectsByName_def sortProjectsByRecent_def set_sort_cmp)

lemma tagNodes_append: "tagNodes (xs @ ys) = tagNodes xs @ tagNodes ys"
  by (induction xs rule: tagNodes.induct) auto

lemma listedProjects_append: "listedProjects (xs @ ys) = listedProjects xs @ listedProjects ys"
  by (induction xs rule: listedProjects.induct) auto

lemma hasUntaggedGroup_append:
  "hasUntaggedGroup (xs @ ys) \<longleftrightarrow> hasUntaggedGroup xs \<or> hasUntaggedGroup ys"
  by (induction xs rule: hasUntaggedGroup.induct) auto

lemma tagNodes_concat: "tagNodes (concat xss) = concat (map tagNodes xss)"
  by (induction xss) (auto simp: tagNodes_append)

lemma listedProjects_concat: "listedProjects (concat xss) = concat (map listedProjects xss)"
  by (induction xss) (auto simp: listedProjects_append)

lemma hasUntaggedGroup_concat:
  "hasUntaggedGroup (concat xss) \<longleftrightarrow> (\<exists>xs \<in> set xss. hasUntaggedGroup xs)"
  by (induction xss) (auto simp: hasUntaggedGroup_append)

lemma tagNodes_projectItems [simp]: "tagNodes (map (projectItem e pr st tagPath) ps) = []"
  by (induction ps) (auto simp: projectItem_def Let_def)

lemma listedProjects_projectItems [simp]:
  "listedProjects (map (projectItem e pr st tagPath) ps) = ps"
  by (induction ps) (auto simp: projectItem_def Let_def)

lemma set_getProjectsWithAllTags:
  "set (getProjectsWithAllTags pr st names) = {p \<in> set (projects pr). carriesAll st names p}"
  by (auto simp: getProjectsWithAllTags_def carriesAll_def list_all_iff)

lemma getUntaggedProjects_empty_iff:
  "getUntaggedProjects (map projectPath ps) st \<noteq> []
     \<longleftrightarrow> (\<exists>p \<in> set ps. getTags (projectPath p) st = [])"
  by (auto simp: getUntaggedProjects_def getTags_def getMetadata_def Let_def filter_empty_conv
      split: option.splits)

text \<open>Each round of the loop appends to both accumulators.\<close>
lemma subTagStep_acc:
  "subTagStep pr st tagPath np F (items, grouped) t =
     (items @ fst (subTagStep pr st tagPath np F ([], []) t),
      grouped @ snd (subTagStep pr st tagPath np F ([], []) t))"
  by (simp add: subTagStep_def Let_def)

lemma foldl_subTagStep:
  "foldl (subTagStep pr st tagPath np F) (items, grouped) ts =
     (items @ concat (map (\<lambda>t. fst (subTagStep pr st tagPath np F ([], []) t)) ts),
      grouped @ concat (map (\<lambda>t. snd (subTagStep pr st tagPath np F ([], []) t)) ts))"
proof (induction ts arbitrary: items grouped)
  case Nil
  then show ?case by simp
next
  case (Cons t ts)
  show ?case
    by (simp only: foldl_Cons subTagStep_acc[of pr st tagPath np F items grouped t] Cons.IH)
       simp
qed

lemma subTagStep_unfiltered:
  "subTagStep pr st tagPath np [] ([], []) t =
     (if getProjectsWithAllTags pr st (tagPath @ [tagName t]) \<noteq> []
      then [TagTreeItem t (tagName t) (tagPath @ [tagName t])
              (length (getProjectsWithAllTags pr st (tagPath @ [tagName t])))
              (np < groupingDepth pr)]
      else [],
      map projectPath (getProjectsWithAllTags pr st (tagPath @ [tagName t])))"
  by (simp add: subTagStep_def Let_def)

text \<open>\<open>getTagChildren\<close> with its two accumulators named.\<close>
lemma getTagChildren_split:
  "getTagChildren e pr st parentTag tagPath =
     (let F = filter (\<lambda>name. name \<noteq> UNTAGGED) (filterTagIds pr);
          acc = (if priority parentTag < groupingDepth pr
                 then foldl (subTagStep pr st tagPath (priority parentTag + 1) F) ([], [])
                        (getTagsByPriority e (tags pr) (priority parentTag + 1))
                 else ([], []))
      in fst acc @ map (projectItem e pr st tagPath)
           (sortProjects e st
              (filter (\<lambda>project. projectPath project \<notin> set (snd acc) \<and>
                         (F \<noteq> [] \<longrightarrow> matchesFilter st F project \<and> tagName parentTag \<in> set F))
                      (getProjectsWithAllTags pr st tagPath))
              (sortOrder pr) (sortDirection pr)))"
  unfolding getTagChildren_def Let_def case_prod_unfold
  by (rule arg_cong2[where f="(@)"], rule refl, rule arg_cong[where f="map _"],
      rule arg_cong[where f="\<lambda>x. sortProjects e st x _ _"], rule filter_cong, rule refl) auto

text \<open>The loop only produces tag nodes.\<close>
lemma listedProjects_subTagStep:
  "listedProjects (fst (subTagStep pr st tagPath np F ([], []) t)) = []"
  by (simp add: subTagStep_def Let_def)

lemma listedProjects_loop:
  "listedProjects (fst (foldl (subTagStep pr st tagPath np F) ([], []) ts)) = []"
proof -
  have "listedProjects (concat (map (\<lambda>t. fst (subTagStep pr st tagPath np F ([], []) t)) ts)) = []"
    by (induction ts) (simp_all add: listedProjects_append listedProjects_subTagStep)
  then show ?thesis by (simp add: foldl_subTagStep)
qed

lemma set_listedProjects_getTagChildren:
  "set (listedProjects (getTagChildren e pr st parentTag tagPath)) =
     (let F = filter (\<lambda>name. name \<noteq> UNTAGGED) (filterTagIds pr);
          grouped = (if priority parentTag < groupingDepth pr
                 then snd (foldl (subTagStep pr st tagPath (priority parentTag + 1) F) ([], [])
                        (getTagsByPriority e (tags pr) (priority parentTag + 1)))
                 else [])
      in {p \<in> set (getProjectsWithAllTags pr st tagPath).
            projectPath p \<notin> set grouped \<and>
            (F \<noteq> [] \<longrightarrow> matchesFilter st F p \<and> tagName parentTag \<in> set F)})"
proof (cases "priority parentTag < groupingDepth pr")
  case True
  then show ?thesis
    unfolding getTagChildren_split Let_def
    by (simp only: if_True listedProjects_append listedProjects_loop listedProjects_projectItems
        append_Nil set_sortProjects set_filter)
next
  case False
  then show ?thesis
    unfolding getTagChildren_split Let_def
    by (simp only: if_False listedProjects_append listedProjects_projectItems fst_conv snd_conv
        listedProjects.simps append_Nil set_sortProjects set_filter)
qed

lemma tagNodes_getTagChildren:
  "tagNodes (getTagChildren e pr st parentTag tagPath) =
     (if priority parentTag < groupingDepth pr
      then tagNodes (concat (map (\<lambda>t. fst (subTagStep pr st tagPath (priority parentTag + 1)
                       (filter (\<lambda>name. name \<noteq> UNTAGGED) (filterTagIds pr)) ([], []) t))
              (getTagsByPriority e (tags pr) (priority parentTag + 1))))
      else [])"
proof (cases "priority parentTag < groupingDepth pr")
  case True
  then show ?thesis
    unfolding getTagChildren_split Let_def
    by (simp only: if_True tagNodes_append tagNodes_projectItems foldl_subTagStep fst_conv
        append_Nil append_Nil2)
next
  case False
  then show ?thesis
    unfolding getTagChildren_split Let_def
    by (simp only: if_False tagNodes_append tagNodes_projectItems fst_conv tagNodes.simps
        append_Nil)
qed

lemma carriesAll_path:
  "projectPath p = projectPath q \<Longrightarrow> carriesAll st names p = carriesAll st names q"
  by (simp add: carriesAll_def)

lemma grouped_path_iff:
  "p \<in> set (projects pr) \<Longrightarrow>
   (projectPath p \<in> projectPath ` set (getProjectsWithAllTags pr st names)) = carriesAll st names p"
proof
  assume "projectPath p \<in> projectPath ` set (getProjectsWithAllTags pr st names)"
  then obtain q where "carriesAll st names q" "projectPath p = projectPath q"
    unfolding set_getProjectsWithAllTags by blast
  then show "carriesAll st names p" by (simp add: carriesAll_def)
next
  assume "p \<in> set (projects pr)" "carriesAll st names p"
  then show "projectPath p \<in> projectPath ` set (getProjectsWithAllTags pr st names)"
    unfolding set_getProjectsWithAllTags by blast
qed

lemma nonempty_getProjectsWithAllTags:
  "getProjectsWithAllTags pr st names \<noteq> [] \<longleftrightarrow> (\<exists>p \<in> set (projects pr). carriesAll st names p)"
proof -
  have "getProjectsWithAllTags pr st names \<noteq> [] \<longleftrightarrow> set (getProjectsWithAllTags pr st names) \<noteq> {}"
    by simp
  then show ?thesis unfolding set_getProjectsWithAllTags by blast
qed

text \<open>The children of a tag node when no tag name is in the filter.\<close>
lemma tagNodes_unfiltered:
  assumes nf: "filter (\<lambda>name. name \<noteq> UNTAGGED) (filterTagIds pr) = []"
  shows "tagNodes (getTagChildren e pr st parentTag tagPath) =
           (if priority parentTag < groupingDepth pr
            then map (\<lambda>t. (t, tagPath @ [tagName t]))
                   (filter (\<lambda>t. getProjectsWithAllTags pr st (tagPath @ [tagName t]) \<noteq> [])
                      (getTagsByPriority e (tags pr) (priority parentTag + 1)))
            else [])"
proof -
  have "tagNodes (concat (map (\<lambda>t. fst (subTagStep pr st tagPath np [] ([], []) t)) ts))
        = map (\<lambda>t. (t, tagPath @ [tagName t]))
            (filter (\<lambda>t. getProjectsWithAllTags pr st (tagPath @ [tagName t]) \<noteq> []) ts)" for np ts
    by (induction ts) (simp_all add: subTagStep_unfiltered tagNodes_append)
  then show ?thesis by (simp only: tagNodes_getTagChildren nf)
qed

lemma listed_unfiltered:
  assumes nf: "filter (\<lambda>name. name \<noteq> UNTAGGED) (filterTagIds pr) = []"
  shows "set (listedProjects (getTagChildren e pr st parentTag tagPath)) =
           {p \<in> set (projects pr). carriesAll st tagPath p \<and>
              \<not> (priority parentTag < groupingDepth pr \<and>
                 (\<exists>t \<in> set (getTagsByPriority e (tags pr) (priority parentTag + 1)).
                    carriesAll st (tagPath @ [tagName t]) p))}"
proof -
  let ?ts = "getTagsByPriority e (tags pr) (priority parentTag + 1)"
  let ?M = "\<lambda>t. getProjectsWithAllTags pr st (tagPath @ [tagName t])"
  have grouped: "set (snd (foldl (subTagStep pr st tagPath np [] ) ([], []) ts))
        = (\<Union>t \<in> set ts. projectPath ` set (?M t))" for np ts
    by (simp add: foldl_subTagStep subTagStep_unfiltered)
  show ?thesis
  proof (cases "priority parentTag < groupingDepth pr")
    case True
    have "set (listedProjects (getTagChildren e pr st parentTag tagPath))
       = {p \<in> set (getProjectsWithAllTags pr st tagPath).
            projectPath p \<notin> (\<Union>t \<in> set ?ts. projectPath ` set (?M t))}"
      unfolding set_listedProjects_getTagChildren Let_def nf using True
      by (simp only: if_True grouped) simp
    also have "\<dots> = {p \<in> set (projects pr). carriesAll st tagPath p \<and>
                 \<not> (\<exists>t \<in> set ?ts. carriesAll st (tagPath @ [tagName t]) p)}"
    proof -
      have "projectPath p \<notin> (\<Union>t \<in> set ?ts. projectPath ` set (?M t))
            \<longleftrightarrow> \<not> (\<exists>t \<in> set ?ts. carriesAll st (tagPath @ [tagName t]) p)"
        if "p \<in> set (projects pr)" for p
        using grouped_path_iff[OF that, of st] by blast
      then show ?thesis unfolding set_getProjectsWithAllTags by blast
    qed
    finally show ?thesis using True by simp
  next
    case False
    then show ?thesis
      unfolding set_listedProjects_getTagChildren Let_def nf
      by (simp add: set_getProjectsWithAllTags)
  qed
qed

lemma tagNodes_rootTagItem:
  "tagNodes (rootTagItem pr st t) =
     (if getProjectsWithAllTags pr st [tagName t] \<noteq> [] then [(t, [tagName t])] else [])"
  by (simp add: rootTagItem_def getProjectCountWithTags_def Let_def)

lemma hasUntaggedGroup_rootTagItem: "\<not> hasUntaggedGroup (rootTagItem pr st t)"
  by (simp add: rootTagItem_def Let_def)

text \<open>A root tag counts some project under the filter: some project carries it and a
  filter tag.\<close>
lemma filtered_count_pos:
  "0 < getFilteredProjectCountUnderTag pr st names F
     \<longleftrightarrow> (\<exists>p \<in> set (projects pr). carriesAll st names p \<and> matchesFilter st F p)"
proof -
  have "(let projectTags = getTags (projectPath p) st;
             hasPathTags = list_all (\<lambda>tagId. tagId \<in> set projectTags) names
         in if \<not> hasPathTags then False
            else list_ex (\<lambda>filterId. filterId \<in> set projectTags) F)
        = (carriesAll st names p \<and> matchesFilter st F p)" for p
    by (auto simp: Let_def carriesAll_def matchesFilter_def list_all_iff)
  then have "getFilteredProjectCountUnderTag pr st names F
        = length (filter (\<lambda>p. carriesAll st names p \<and> matchesFilter st F p) (projects pr))"
    unfolding getFilteredProjectCountUnderTag_def by (simp only:)
  then show ?thesis by (simp add: filter_empty_conv)
qed

lemma tagNodes_filteredRootTagItem:
  "tagNodes (filteredRootTagItem pr st F t) =
     (if \<exists>p \<in> set (projects pr). carriesAll st [tagName t] p \<and> matchesFilter st F p
      then [(t, [tagName t])] else [])"
  using filtered_count_pos[of pr st "[tagName t]" F]
  by (simp add: filteredRootTagItem_def Let_def)

lemma hasUntaggedGroup_filteredRootTagItem: "\<not> hasUntaggedGroup (filteredRootTagItem pr st F t)"
  by (simp add: filteredRootTagItem_def Let_def)

lemma tagNodes_concat_map_if:
  "(\<And>t. tagNodes (f t) = (if P t then [g t] else [])) \<Longrightarrow>
   tagNodes (concat (map f ts)) = map g (filter P ts)"
  by (induction ts) (simp_all add: tagNodes_append)

lemma root_unfiltered:
  assumes "filterTagIds pr = []"
  shows "tagNodes (getTagHierarchyRoot e pr st) =
           map (\<lambda>t. (t, [tagName t]))
             (filter (\<lambda>t. getProjectsWithAllTags pr st [tagName t] \<noteq> [])
                (getTagsByPriority e (tags pr) 0))"
    and "hasUntaggedGroup (getTagHierarchyRoot e pr st)
           \<longleftrightarrow> (\<exists>p \<in> set (projects pr). getTags (projectPath p) st = [])"
proof -
  let ?u = "getUntaggedProjects (map projectPath (projects pr)) st"
  have root: "getTagHierarchyRoot e pr st =
          concat (map (rootTagItem pr st) (getTagsByPriority e (tags pr) 0))
          @ (if ?u \<noteq> [] then [UntaggedTreeItem (length ?u)] else [])"
    using assms by (simp add: getTagHierarchyRoot_def Let_def)
  show "tagNodes (getTagHierarchyRoot e pr st) =
           map (\<lambda>t. (t, [tagName t]))
             (filter (\<lambda>t. getProjectsWithAllTags pr st [tagName t] \<noteq> [])
                (getTagsByPriority e (tags pr) 0))"
    unfolding root tagNodes_append
    by (simp add: tagNodes_concat_map_if[OF tagNodes_rootTagItem])
  show "hasUntaggedGroup (getTagHierarchyRoot e pr st)
           \<longleftrightarrow> (\<exists>p \<in> set (projects pr). getTags (projectPath p) st = [])"
    unfolding root hasUntaggedGroup_append hasUntaggedGroup_concat
    using getUntaggedProjects_empty_iff[of "projects pr" st]
    by (simp add: hasUntaggedGroup_rootTagItem)
qed

lemma root_filtered:
  assumes "filter (\<lambda>name. name \<noteq> UNTAGGED) (filterTagIds pr) \<noteq> []"
  shows "tagNodes (getTagHierarchyRoot e pr st) =
           map (\<lambda>t. (t, [tagName t]))
             (filter (\<lambda>t. \<exists>p \<in> set (projects pr). carriesAll st [tagName t] p \<and>
                          matchesFilter st (filter (\<lambda>name. name \<noteq> UNTAGGED) (filterTagIds pr)) p)
                (getTagsByPriority e (tags pr) 0))"
    and "hasUntaggedGroup (getTagHierarchyRoot e pr st)
           \<longleftrightarrow> UNTAGGED \<in> set (filterTagIds pr)
               \<and> (\<exists>p \<in> set (projects pr). getTags (projectPath p) st = [])"
proof -
  let ?u = "getUntaggedProjects (map projectPath (projects pr)) st"
  let ?F = "filter (\<lambda>name. name \<noteq> UNTAGGED) (filterTagIds pr)"
  from assms have ne: "filterTagIds pr \<noteq> []" by auto
  have root: "getTagHierarchyRoot e pr st =
          (if UNTAGGED \<in> set (filterTagIds pr) \<and> ?u \<noteq> [] then [UntaggedTreeItem (length ?u)] else [])
          @ concat (map (filteredRootTagItem pr st ?F) (getTagsByPriority e (tags pr) 0))"
    using assms ne by (simp add: getTagHierarchyRoot_def Let_def)
  show "tagNodes (getTagHierarchyRoot e pr st) =
           map (\<lambda>t. (t, [tagName t]))
             (filter (\<lambda>t. \<exists>p \<in> set (projects pr). carriesAll st [tagName t] p \<and> matchesFilter st ?F p)
                (getTagsByPriority e (tags pr) 0))"
    unfolding root tagNodes_append
    by (simp add: tagNodes_concat_map_if[OF tagNodes_filteredRootTagItem])
  show "hasUntaggedGroup (getTagHierarchyRoot e pr st)
           \<longleftrightarrow> UNTAGGED \<in> set (filterTagIds pr)
               \<and> (\<exists>p \<in> set (projects pr). getTags (projectPath p) st = [])"
    unfolding root hasUntaggedGroup_append hasUntaggedGroup_concat
    using getUntaggedProjects_empty_iff[of "projects pr" st]
    by (simp add: hasUntaggedGroup_filteredRootTagItem)
qed

lemma matchesFilter_iff:
  "matchesFilter st (filter (\<lambda>name. name \<noteq> UNTAGGED) ids) p
     \<longleftrightarrow> (\<exists>f \<in> set ids. f \<noteq> UNTAGGED \<and> f \<in> set (getTags (projectPath p) st))"
  by (auto simp: matchesFilter_def Let_def list_ex_iff)

lemmas tree_eval = filteredView_def treeView_def treeState_def emptyState_def e0_def
      getUntaggedProjects_def getAll_def getTagsByPriority_def getTags_TagService_def sort_cmp_def
      rootTagItem_def getProjectCountWithTags_def getProjectsWithAllTags_def getTags_def getMetadata_def
      UNTAGGED_def subTagStep_def matchesFilter_def filteredRootTagItem_def getFilteredProjectCountUnderTag_def
      sortProjects_def sortProjectsByRecent_def getHistory_def projectItem_def isSaved_def
      getSavedProjects_def getTag_def List.map_filter_def Let_def

lemma root_of_treeView:
  "getTagHierarchyRoot e0 treeView treeState =
     [TagTreeItem \<lparr>tagName = ''docs'', priority = 0\<rparr> ''docs'' [''docs''] 1 True,
      TagTreeItem \<lparr>tagName = ''web'', priority = 0\<rparr> ''web'' [''web''] 3 True,
      UntaggedTreeItem 1]"
  by (simp add: getTagHierarchyRoot_def tree_eval)

lemma web_of_treeView:
  "getTagChildren e0 treeView treeState \<lparr>tagName = ''web'', priority = 0\<rparr> [''web''] =
     [TagTreeItem \<lparr>tagName = ''rust'', priority = 1\<rparr> ''rust'' [''web'', ''rust''] 1 False,
      TagTreeItem \<lparr>tagName = ''vue'', priority = 1\<rparr> ''vue'' [''web'', ''vue''] 1 False,
      ProjectTreeItem \<lparr>projectName = ''e'', projectPath = ''/e''\<rparr> False False None]"
  by (simp add: getTagChildren_def tree_eval)

lemma root_of_filteredView:
  "getTagHierarchyRoot e0 filteredView treeState =
     [TagTreeItem \<lparr>tagName = ''web'', priority = 0\<rparr> ''web'' [''web''] 1 True]"
  by (simp add: getTagHierarchyRoot_def tree_eval)

lemma web_of_filteredView:
  "getTagChildren e0 filteredView treeState \<lparr>tagName = ''web'', priority = 0\<rparr> [''web''] =
     [TagTreeItem \<lparr>tagName = ''rust'', priority = 1\<rparr> ''rust'' [''web'', ''rust''] 1 False]"
  by (simp add: getTagChildren_def tree_eval)

lemma rust_of_filteredView:
  "getTagChildren e0 filteredView treeState \<lparr>tagName = ''rust'', priority = 1\<rparr> [''web'', ''rust''] =
     [ProjectTreeItem \<lparr>projectName = ''a'', projectPath = ''/a''\<rparr> False True None]"
  by (simp add: getTagChildren_def tree_eval)

section \<open>C2: grouping by priority\<close>

text \<open>Claim C2, as amended. When no filter is set, the root shows a node for exactly
  the tags of priority 0 carried by some project, and the untagged group exactly when
  some project has no tag; under a tag node of priority \<open>p\<close> below the grouping depth the
  sub-tag nodes are exactly the tags \<open>t\<close> of priority \<open>p + 1\<close> such that some project
  carries every name of the node's path and \<open>t\<close>, each with the path extended by \<open>t\<close>;
  at or beyond the grouping depth there is no sub-tag node.\<close>

theorem tag_hierarchy_grouping:
  assumes "filterTagIds pr = []"
  shows "set (tagNodes (getTagHierarchyRoot e pr st)) =
           (\<lambda>t. (t, [tagName t])) `
             {t \<in> set (getTags_TagService (tags pr)).
                priority t = 0 \<and> (\<exists>p \<in> set (projects pr). carriesAll st [tagName t] p)}
       \<and> (hasUntaggedGroup (getTagHierarchyRoot e pr st)
            \<longleftrightarrow> (\<exists>p \<in> set (projects pr). getTags (projectPath p) st = []))
       \<and> set (tagNodes (getTagChildren e pr st parentTag tagPath)) =
           (if priority parentTag < groupingDepth pr
            then (\<lambda>t. (t, tagPath @ [tagName t])) `
                   {t \<in> set (getTags_TagService (tags pr)).
                      priority t = priority parentTag + 1 \<and>
                      (\<exists>p \<in> set (projects pr). carriesAll st (tagPath @ [tagName t]) p)}
            else {})"
proof -
  have nf: "filter (\<lambda>name. name \<noteq> UNTAGGED) (filterTagIds pr) = []"
    using assms by simp
  have a: "set (tagNodes (getTagHierarchyRoot e pr st)) =
           (\<lambda>t. (t, [tagName t])) `
             {t \<in> set (getTags_TagService (tags pr)).
                priority t = 0 \<and> (\<exists>p \<in> set (projects pr). carriesAll st [tagName t] p)}"
    unfolding root_unfiltered(1)[OF assms] set_map set_filter set_getTagsByPriority
      nonempty_getProjectsWithAllTags
    by (rule arg_cong[where f="image _"]) blast
  have b: "set (tagNodes (getTagChildren e pr st parentTag tagPath)) =
           (\<lambda>t. (t, tagPath @ [tagName t])) `
                   {t \<in> set (getTags_TagService (tags pr)).
                      priority t = priority parentTag + 1 \<and>
                      (\<exists>p \<in> set (projects pr). carriesAll st (tagPath @ [tagName t]) p)}"
    if "priority parentTag < groupingDepth pr"
    unfolding tagNodes_unfiltered[OF nf] using that
    apply (simp only: if_True set_map set_filter set_getTagsByPriority nonempty_getProjectsWithAllTags)
    by (rule arg_cong[where f="image _"]) blast
  have c: "set (tagNodes (getTagChildren e pr st parentTag tagPath)) = {}"
    if "\<not> priority parentTag < groupingDepth pr"
    unfolding tagNodes_unfiltered[OF nf] using that by simp
  from a b c root_unfiltered(2)[OF assms, of e st] show ?thesis by (simp only: split: if_split) blast
qed

text \<open>The theorem at the unfiltered view, for the root and for the node \<open>web\<close>.\<close>

theorem tag_hierarchy_grouping_witness:
  "filterTagIds treeView = []
   \<and> (\<lambda>t. (t, [tagName t])) `
        {t \<in> set (getTags_TagService (tags treeView)).
           priority t = 0 \<and> (\<exists>p \<in> set (projects treeView). carriesAll treeState [tagName t] p)}
       = {(\<lparr>tagName = ''docs'', priority = 0\<rparr>, [''docs'']),
          (\<lparr>tagName = ''web'', priority = 0\<rparr>, [''web''])}
   \<and> (\<exists>p \<in> set (projects treeView). getTags (projectPath p) treeState = [])
   \<and> (\<lambda>t. (t, [''web''] @ [tagName t])) `
        {t \<in> set (getTags_TagService (tags treeView)).
           priority t = priority \<lparr>tagName = ''web'', priority = 0\<rparr> + 1 \<and>
           (\<exists>p \<in> set (projects treeView). carriesAll treeState ([''web''] @ [tagName t]) p)}
       = {(\<lparr>tagName = ''rust'', priority = 1\<rparr>, [''web'', ''rust'']),
          (\<lparr>tagName = ''vue'', priority = 1\<rparr>, [''web'', ''vue''])}"
proof -
  have f: "filterTagIds treeView = []" by (simp add: treeView_def)
  have d: "priority \<lparr>tagName = ''web'', priority = 0\<rparr> < groupingDepth treeView"
    by (simp add: treeView_def)
  from tag_hierarchy_grouping[OF f, of e0 treeState "\<lparr>tagName = ''web'', priority = 0\<rparr>" "[''web'']"]
  show ?thesis
    unfolding root_of_treeView web_of_treeView using f d by simp
qed

text \<open>Claim C2 as stated fails under a filter: filtered by \<open>rust\<close>, the root shows neither
  \<open>docs\<close>, a tag of priority 0 carried by the project \<open>d\<close>, nor the untagged group of
  the project \<open>c\<close>; and under \<open>web\<close> there is no node for \<open>vue\<close>, although the project
  \<open>b\<close> carries \<open>web\<close> and \<open>vue\<close>.\<close>

theorem tag_hierarchy_grouping_counterexample:
  "tagNodes (getTagHierarchyRoot e0 filteredView treeState)
     = [(\<lparr>tagName = ''web'', priority = 0\<rparr>, [''web''])]
   \<and> \<not> hasUntaggedGroup (getTagHierarchyRoot e0 filteredView treeState)
   \<and> \<lparr>tagName = ''docs'', priority = 0\<rparr> \<in> set (getTags_TagService (tags filteredView))
   \<and> \<lparr>projectName = ''d'', projectPath = ''/d''\<rparr> \<in> set (projects filteredView)
   \<and> carriesAll treeState [''docs''] \<lparr>projectName = ''d'', projectPath = ''/d''\<rparr>
   \<and> \<lparr>projectName = ''c'', projectPath = ''/c''\<rparr> \<in> set (projects filteredView)
   \<and> getTags ''/c'' treeState = []
   \<and> tagNodes (getTagChildren e0 filteredView treeState \<lparr>tagName = ''web'', priority = 0\<rparr> [''web''])
       = [(\<lparr>tagName = ''rust'', priority = 1\<rparr>, [''web'', ''rust''])]
   \<and> priority \<lparr>tagName = ''web'', priority = 0\<rparr> < groupingDepth filteredView
   \<and> \<lparr>tagName = ''vue'', priority = 1\<rparr> \<in> set (getTags_TagService (tags filteredView))
   \<and> \<lparr>projectName = ''b'', projectPath = ''/b''\<rparr> \<in> set (projects filteredView)
   \<and> carriesAll treeState [''web'', ''vue''] \<lparr>projectName = ''b'', projectPath = ''/b''\<rparr>"
  unfolding root_of_filteredView web_of_filteredView
  by (simp add: filteredView_def treeView_def treeState_def emptyState_def getTags_TagService_def
      carriesAll_def getTags_def getMetadata_def getAll_def)

section \<open>C3: grouped and ungrouped projects\<close>

text \<open>Claim C3. When no tag name is in the filter, the projects listed directly under a
  tag node are exactly the projects that carry every name of the node's path and do
  not carry all names of the path of any sub-tag node shown beside them: a project
  counted under a sub-tag node is not listed again at this level.\<close>

theorem tag_children_dedup:
  assumes "filter (\<lambda>name. name \<noteq> UNTAGGED) (filterTagIds pr) = []"
  shows "set (listedProjects (getTagChildren e pr st parentTag tagPath)) =
           {p \<in> set (projects pr).
              carriesAll st tagPath p \<and>
              (\<forall>(t, subPath) \<in> set (tagNodes (getTagChildren e pr st parentTag tagPath)).
                  \<not> carriesAll st subPath p)}"
proof -
  let ?ts = "getTagsByPriority e (tags pr) (priority parentTag + 1)"
  have "(\<forall>(t, subPath) \<in> set (tagNodes (getTagChildren e pr st parentTag tagPath)).
            \<not> carriesAll st subPath p)
        \<longleftrightarrow> \<not> (priority parentTag < groupingDepth pr \<and>
                 (\<exists>t \<in> set ?ts. carriesAll st (tagPath @ [tagName t]) p))"
    if p: "p \<in> set (projects pr)" for p
  proof (cases "priority parentTag < groupingDepth pr")
    case False
    then show ?thesis by (simp add: tagNodes_unfiltered[OF assms])
  next
    case True
    have "set (tagNodes (getTagChildren e pr st parentTag tagPath))
          = (\<lambda>t. (t, tagPath @ [tagName t])) `
              {t \<in> set ?ts. getProjectsWithAllTags pr st (tagPath @ [tagName t]) \<noteq> []}"
      using True by (simp add: tagNodes_unfiltered[OF assms])
    moreover have "getProjectsWithAllTags pr st (tagPath @ [tagName t]) \<noteq> []"
      if "carriesAll st (tagPath @ [tagName t]) p" for t
      using that p nonempty_getProjectsWithAllTags by blast
    ultimately show ?thesis using True by fastforce
  qed
  then show ?thesis
    unfolding listed_unfiltered[OF assms] by blast
qed

text \<open>The theorem at the node \<open>web\<close> of the unfiltered view: only the project \<open>e\<close> is
  listed beside the nodes \<open>rust\<close> and \<open>vue\<close>.\<close>

theorem tag_children_dedup_witness:
  "filter (\<lambda>name. name \<noteq> UNTAGGED) (filterTagIds treeView) = []
   \<and> tagNodes (getTagChildren e0 treeView treeState \<lparr>tagName = ''web'', priority = 0\<rparr> [''web''])
       = [(\<lparr>tagName = ''rust'', priority = 1\<rparr>, [''web'', ''rust'']),
          (\<lparr>tagName = ''vue'', priority = 1\<rparr>, [''web'', ''vue''])]
   \<and> {p \<in> set (projects treeView).
         carriesAll treeState [''web''] p \<and>
         (\<forall>(t, subPath) \<in> set (tagNodes (getTagChildren e0 treeView treeState
                                            \<lparr>tagName = ''web'', priority = 0\<rparr> [''web''])).
             \<not> carriesAll treeState subPath p)}
       = {\<lparr>projectName = ''e'', projectPath = ''/e''\<rparr>}"
proof -
  have f: "filter (\<lambda>name. name \<noteq> UNTAGGED) (filterTagIds treeView) = []"
    by (simp add: treeView_def)
  from tag_children_dedup[OF f, of e0 treeState "\<lparr>tagName = ''web'', priority = 0\<rparr>" "[''web'']"]
  have "{p \<in> set (projects treeView).
         carriesAll treeState [''web''] p \<and>
         (\<forall>(t, subPath) \<in> set (tagNodes (getTagChildren e0 treeView treeState
                                            \<lparr>tagName = ''web'', priority = 0\<rparr> [''web''])).
             \<not> carriesAll treeState subPath p)}
       = set (listedProjects (getTagChildren e0 treeView treeState
                                 \<lparr>tagName = ''web'', priority = 0\<rparr> [''web'']))"
    by simp
  then show ?thesis using f by (simp add: web_of_treeView)
qed

section \<open>C4: the filtered tree\<close>

text \<open>What holds under every filter with a tag name: the root shows a node for exactly
  the tags of priority 0 such that some project carries the tag and a tag name of the
  filter; the untagged group is shown exactly when the filter holds the untagged marker
  and some project has no tag; and a tag node lists projects only if its own tag is a
  tag name of the filter.\<close>

lemma filtered_root_and_projects:
  assumes "filter (\<lambda>name. name \<noteq> UNTAGGED) (filterTagIds pr) \<noteq> []"
  shows "set (tagNodes (getTagHierarchyRoot e pr st)) =
           (\<lambda>t. (t, [tagName t])) `
             {t \<in> set (getTags_TagService (tags pr)).
                priority t = 0 \<and>
                (\<exists>p \<in> set (projects pr).
                    tagName t \<in> set (getTags (projectPath p) st) \<and>
                    (\<exists>f \<in> set (filterTagIds pr).
                        f \<noteq> UNTAGGED \<and> f \<in> set (getTags (projectPath p) st)))}
       \<and> (hasUntaggedGroup (getTagHierarchyRoot e pr st)
            \<longleftrightarrow> UNTAGGED \<in> set (filterTagIds pr)
                \<and> (\<exists>p \<in> set (projects pr). getTags (projectPath p) st = []))
       \<and> (listedProjects (getTagChildren e pr st parentTag tagPath) \<noteq> []
            \<longrightarrow> tagName parentTag \<in> set (filterTagIds pr) \<and> tagName parentTag \<noteq> UNTAGGED)"
proof -
  let ?F = "filter (\<lambda>name. name \<noteq> UNTAGGED) (filterTagIds pr)"
  have a: "set (tagNodes (getTagHierarchyRoot e pr st)) =
           (\<lambda>t. (t, [tagName t])) `
             {t \<in> set (getTags_TagService (tags pr)).
                priority t = 0 \<and>
                (\<exists>p \<in> set (projects pr).
                    tagName t \<in> set (getTags (projectPath p) st) \<and>
                    (\<exists>f \<in> set (filterTagIds pr).
                        f \<noteq> UNTAGGED \<and> f \<in> set (getTags (projectPath p) st)))}"
    unfolding root_filtered(1)[OF assms] set_map set_filter set_getTagsByPriority matchesFilter_iff
    by (rule arg_cong[where f="image _"]) (auto simp: carriesAll_def)
  have c: "tagName parentTag \<in> set (filterTagIds pr) \<and> tagName parentTag \<noteq> UNTAGGED"
    if "listedProjects (getTagChildren e pr st parentTag tagPath) \<noteq> []"
  proof -
    from that have "set (listedProjects (getTagChildren e pr st parentTag tagPath)) \<noteq> {}"
      by simp
    then obtain p where "p \<in> set (listedProjects (getTagChildren e pr st parentTag tagPath))"
      by (meson all_not_in_conv)
    then have "tagName parentTag \<in> set ?F"
      unfolding set_listedProjects_getTagChildren Let_def using assms by blast
    then show ?thesis by simp
  qed
  from a c root_filtered(2)[OF assms, of e st] show ?thesis by blast
qed

text \<open>At the view filtered by \<open>rust\<close> the root shows \<open>web\<close> alone, and the node \<open>rust\<close>
  lists the project \<open>a\<close>.\<close>

lemma filtered_root_and_projects_at_rust:
  "filter (\<lambda>name. name \<noteq> UNTAGGED) (filterTagIds filteredView) \<noteq> []
   \<and> (\<lambda>t. (t, [tagName t])) `
        {t \<in> set (getTags_TagService (tags filteredView)).
           priority t = 0 \<and>
           (\<exists>p \<in> set (projects filteredView).
               tagName t \<in> set (getTags (projectPath p) treeState) \<and>
               (\<exists>f \<in> set (filterTagIds filteredView).
                   f \<noteq> UNTAGGED \<and> f \<in> set (getTags (projectPath p) treeState)))}
       = {(\<lparr>tagName = ''web'', priority = 0\<rparr>, [''web''])}
   \<and> \<not> (UNTAGGED \<in> set (filterTagIds filteredView)
          \<and> (\<exists>p \<in> set (projects filteredView). getTags (projectPath p) treeState = []))
   \<and> listedProjects (getTagChildren e0 filteredView treeState
         \<lparr>tagName = ''rust'', priority = 1\<rparr> [''web'', ''rust'']) \<noteq> []
   \<and> tagName \<lparr>tagName = ''rust'', priority = 1\<rparr> \<in> set (filterTagIds filteredView)"
proof -
  have f: "filter (\<lambda>name. name \<noteq> UNTAGGED) (filterTagIds filteredView) \<noteq> []"
    by (simp add: filteredView_def UNTAGGED_def)
  from filtered_root_and_projects[OF f, of e0 treeState "\<lparr>tagName = ''rust'', priority = 1\<rparr>"
      "[''web'', ''rust'']"]
  show ?thesis
    unfolding root_of_filteredView rust_of_filteredView using f by simp
qed

lemma tagNodes_subTagStep_filtered:
  assumes "F \<noteq> []"
  shows "tagNodes (fst (subTagStep pr st tagPath np F ([], []) t)) =
           (if \<exists>p \<in> set (projects pr). carriesAll st (tagPath @ [tagName t]) p \<and> matchesFilter st F p
            then [(t, tagPath @ [tagName t])] else [])"
proof -
  have "filter (matchesFilter st F) (getProjectsWithAllTags pr st (tagPath @ [tagName t])) \<noteq> []
        \<longleftrightarrow> (\<exists>p \<in> set (projects pr). carriesAll st (tagPath @ [tagName t]) p \<and> matchesFilter st F p)"
    by (auto simp: filter_empty_conv set_getProjectsWithAllTags)
  with assms show ?thesis by (simp add: subTagStep_def Let_def)
qed

text \<open>The sub-tag nodes of a tag node when a tag name is in the filter: the tags of the
  next priority such that some project carries the extended path and a tag name of the
  filter, wherever that tag name stands in the hierarchy.\<close>
lemma tagNodes_filtered:
  assumes "filter (\<lambda>name. name \<noteq> UNTAGGED) (filterTagIds pr) \<noteq> []"
  shows "set (tagNodes (getTagChildren e pr st parentTag tagPath)) =
           (if priority parentTag < groupingDepth pr
            then (\<lambda>t. (t, tagPath @ [tagName t])) `
                   {t \<in> set (getTags_TagService (tags pr)).
                      priority t = priority parentTag + 1 \<and>
                      (\<exists>p \<in> set (projects pr).
                          carriesAll st (tagPath @ [tagName t]) p \<and>
                          (\<exists>f \<in> set (filterTagIds pr).
                              f \<noteq> UNTAGGED \<and> f \<in> set (getTags (projectPath p) st)))}
            else {})"
proof (cases "priority parentTag < groupingDepth pr")
  case False
  then show ?thesis by (simp add: tagNodes_getTagChildren)
next
  case True
  let ?F = "filter (\<lambda>name. name \<noteq> UNTAGGED) (filterTagIds pr)"
  have "tagNodes (getTagChildren e pr st parentTag tagPath) =
          map (\<lambda>t. (t, tagPath @ [tagName t]))
            (filter (\<lambda>t. \<exists>p \<in> set (projects pr).
                        carriesAll st (tagPath @ [tagName t]) p \<and> matchesFilter st ?F p)
               (getTagsByPriority e (tags pr) (priority parentTag + 1)))"
    using True
    by (simp only: tagNodes_getTagChildren if_True
        tagNodes_concat_map_if[OF tagNodes_subTagStep_filtered[OF assms]])
  then show ?thesis
    using True
    apply (simp only: if_True set_map set_filter set_getTagsByPriority matchesFilter_iff)
    by (rule arg_cong[where f="image _"]) blast
qed

lemma root_of_webFilteredView:
  "getTagHierarchyRoot e0 webFilteredView treeState =
     [TagTreeItem \<lparr>tagName = ''web'', priority = 0\<rparr> ''web'' [''web''] 3 False]"
  by (simp add: getTagHierarchyRoot_def webFilteredView_def tree_eval)

text \<open>Claim C4, at a failing input. Filtered by \<open>web\<close>, a tag of priority 0, the root
  shows \<open>web\<close> as a node without sub-tags (\<open>hasChildren\<close> is false for a filter tag), yet
  the children of \<open>web\<close> begin with nodes for \<open>rust\<close> and \<open>vue\<close>: neither is a filter tag,
  neither leads to one, and both expand to nothing, their projects being listed under
  \<open>web\<close> itself. The tree is not pruned to the paths leading to filter tags.\<close>

theorem filtered_children_not_pruned:
  "filter (\<lambda>name. name \<noteq> UNTAGGED) (filterTagIds webFilteredView) = [''web'']
   \<and> getTagHierarchyRoot e0 webFilteredView treeState =
       [TagTreeItem \<lparr>tagName = ''web'', priority = 0\<rparr> ''web'' [''web''] 3 False]
   \<and> getTagChildren e0 webFilteredView treeState \<lparr>tagName = ''web'', priority = 0\<rparr> [''web''] =
       [TagTreeItem \<lparr>tagName = ''rust'', priority = 1\<rparr> ''rust'' [''web'', ''rust''] 1 False,
        TagTreeItem \<lparr>tagName = ''vue'', priority = 1\<rparr> ''vue'' [''web'', ''vue''] 1 False,
        ProjectTreeItem \<lparr>projectName = ''a'', projectPath = ''/a''\<rparr> False True (Some ''[rust]''),
        ProjectTreeItem \<lparr>projectName = ''b'', projectPath = ''/b''\<rparr> False False (Some ''[vue]''),
        ProjectTreeItem \<lparr>projectName = ''e'', projectPath = ''/e''\<rparr> False False None]
   \<and> getTagChildren e0 webFilteredView treeState
         \<lparr>tagName = ''rust'', priority = 1\<rparr> [''web'', ''rust''] = []
   \<and> getTagChildren e0 webFilteredView treeState
         \<lparr>tagName = ''vue'', priority = 1\<rparr> [''web'', ''vue''] = []"
  by (simp add: getTagHierarchyRoot_def getTagChildren_def webFilteredView_def tree_eval)

text \<open>What the evaluation shows of the tree: the sub-tag nodes under the filter tag
  \<open>web\<close> carry tags outside the filter, and nothing is listed under them.\<close>

theorem filtered_children_not_pruned_witness:
  "tagNodes (getTagChildren e0 webFilteredView treeState
               \<lparr>tagName = ''web'', priority = 0\<rparr> [''web''])
     = [(\<lparr>tagName = ''rust'', priority = 1\<rparr>, [''web'', ''rust'']),
        (\<lparr>tagName = ''vue'', priority = 1\<rparr>, [''web'', ''vue''])]
   \<and> ''rust'' \<notin> set (filterTagIds webFilteredView)
   \<and> ''vue'' \<notin> set (filterTagIds webFilteredView)
   \<and> tagNodes (getTagChildren e0 webFilteredView treeState
                  \<lparr>tagName = ''rust'', priority = 1\<rparr> [''web'', ''rust'']) = []
   \<and> listedProjects (getTagChildren e0 webFilteredView treeState
                        \<lparr>tagName = ''rust'', priority = 1\<rparr> [''web'', ''rust'']) = []
   \<and> tagNodes (getTagChildren e0 webFilteredView treeState
                  \<lparr>tagName = ''vue'', priority = 1\<rparr> [''web'', ''vue'']) = []
   \<and> listedProjects (getTagChildren e0 webFilteredView treeState
                        \<lparr>tagName = ''vue'', priority = 1\<rparr> [''web'', ''vue'']) = []"
  using filtered_children_not_pruned by (simp add: webFilteredView_def treeView_def)

end
